theory Spec2Isabelle
  imports Complex_Main
begin

section \<open>Text and the interpreter's character tables\<close>

text \<open>
  A Python \<open>str\<close> is a sequence of Unicode code points; it is modelled as a list of
  natural numbers, one per code point.  \<open>str\<close> embeds an ASCII literal of the source.
  Lone surrogates (which \<open>str.encode()\<close> rejects) are not considered.
\<close>

type_synonym ustr = "nat list"

definition str :: "string \<Rightarrow> ustr" where
  "str s = map of_char s"

text \<open>
  JSON documents as \<open>response.json()\<close> returns them; \<open>JNull\<close> is Python's \<open>None\<close>.
  An object is kept as an association list, read with \<open>map_of\<close>.  Non-finite floats
  are not represented.
\<close>

datatype json =
    JNull
  | JBool bool
  | JInt int
  | JFloat real
  | JStr ustr
  | JArr "json list"
  | JObj "(ustr \<times> json) list"

text \<open>
  What the code takes from the Python runtime and its libraries, none of which is part
  of the repository: the Unicode tables behind \<open>\s\<close>, \<open>\d\<close> and \<open>re.IGNORECASE\<close>
  (\<open>str.isspace\<close>, decimal digits, simple lower-casing, cased characters, and the extra
  case equivalences of the \<open>re\<close> compiler), \<open>str.capitalize\<close>, \<open>str()\<close> of a value
  that is not a string, and \<open>hashlib.md5(text.encode()).hexdigest()\<close>.
\<close>

record runtime =
  isspace :: "nat \<Rightarrow> bool"
  isdecimal :: "nat \<Rightarrow> bool"
  tolower :: "nat \<Rightarrow> nat"
  iscased :: "nat \<Rightarrow> bool"
  casefix :: "nat \<Rightarrow> nat list"
  capitalize :: "ustr \<Rightarrow> ustr"
  str_of :: "json \<Rightarrow> ustr"
  md5_hexdigest :: "ustr \<Rightarrow> ustr"

section \<open>Regular expressions of the \<open>re\<close> module\<close>

text \<open>
  The two patterns of \<open>bot.py\<close> are kept as syntax trees and run by a backtracking
  matcher that returns, in the order Python tries them, the positions at which a match
  of the expression can end.  Only the constructs the two patterns use are covered:
  character sets of literals, ranges and the categories \<open>\d\<close>, \<open>\s\<close>; negated sets;
  sequence; alternation; greedy repetition \<open>{m,n}\<close>, \<open>?\<close>, \<open>+\<close>; \<open>^\<close> and \<open>$\<close>
  without \<open>re.MULTILINE\<close>.
\<close>

datatype item = Lit nat | Range nat nat | CatDigit | CatSpace

datatype rx =
    Bol
  | Eol
  | In "item list"
  | NotIn "item list"
  | Eps
  | Seq rx rx
  | Alt rx rx
  | Rep rx nat "nat option"

fun item_cased :: "runtime \<Rightarrow> item \<Rightarrow> bool" where
  "item_cased P (Lit c) = iscased P c"
| "item_cased P (Range a b) = list_ex (iscased P) [a ..< Suc b]"
| "item_cased P CatDigit = False"
| "item_cased P CatSpace = False"

text \<open>The lower-cased character \<open>x\<close> against one member of a set compiled for ignoring case.\<close>

definition folded :: "runtime \<Rightarrow> nat \<Rightarrow> nat \<Rightarrow> bool" where
  "folded P c x = (x \<in> set (tolower P c # casefix P (tolower P c)))"

fun item_ignore :: "runtime \<Rightarrow> item \<Rightarrow> nat \<Rightarrow> bool" where
  "item_ignore P (Lit c) x = folded P c x"
| "item_ignore P (Range a b) x = list_ex (\<lambda>i. folded P i x) [a ..< Suc b]"
| "item_ignore P CatDigit x = isdecimal P x"
| "item_ignore P CatSpace x = isspace P x"

fun item_plain :: "runtime \<Rightarrow> item \<Rightarrow> nat \<Rightarrow> bool" where
  "item_plain P (Lit c) ch = (ch = c)"
| "item_plain P (Range a b) ch = (a \<le> ch \<and> ch \<le> b)"
| "item_plain P CatDigit ch = isdecimal P ch"
| "item_plain P CatSpace ch = isspace P ch"

text \<open>
  Membership of a character in a set.  With \<open>re.IGNORECASE\<close> a set that has a cased
  member is compiled to its lower-cased members (plus the extra equivalents) and tested
  against the lower-cased character; any other set is tested as written.
\<close>

definition in_set :: "runtime \<Rightarrow> bool \<Rightarrow> item list \<Rightarrow> nat \<Rightarrow> bool" where
  "in_set P ic its ch =
     (if ic \<and> list_ex (item_cased P) its
      then list_ex (\<lambda>it. item_ignore P it (tolower P ch)) its
      else list_ex (\<lambda>it. item_plain P it ch) its)"

type_synonym cfg = "nat \<times> ustr"

text \<open>
  \<open>rep f lo n c\<close>: the body \<open>f\<close> repeated greedily from configuration \<open>c\<close>, at
  least \<open>lo\<close> times and at most \<open>n\<close> times; more repetitions are tried first.
\<close>

fun rep :: "(cfg \<Rightarrow> cfg list) \<Rightarrow> nat \<Rightarrow> nat \<Rightarrow> cfg \<Rightarrow> cfg list" where
  "rep f lo 0 c = (if lo = 0 then [c] else [])"
| "rep f lo (Suc n) c =
     concat (map (rep f (lo - 1) n) (f c)) @ (if lo = 0 then [c] else [])"

text \<open>
  A configuration is the position reached and the text still to read.  An unbounded
  repetition is cut at \<open>lo\<close> plus the number of characters left.
\<close>

primrec rmatch :: "runtime \<Rightarrow> bool \<Rightarrow> rx \<Rightarrow> cfg \<Rightarrow> cfg list" where
  "rmatch P ic Bol = (\<lambda>(i, s). if i = 0 then [(i, s)] else [])"
| "rmatch P ic Eol = (\<lambda>(i, s). if s = [] \<or> s = [10] then [(i, s)] else [])"
| "rmatch P ic (In its) =
     (\<lambda>(i, s). case s of [] \<Rightarrow> []
        | ch # t \<Rightarrow> if in_set P ic its ch then [(Suc i, t)] else [])"
| "rmatch P ic (NotIn its) =
     (\<lambda>(i, s). case s of [] \<Rightarrow> []
        | ch # t \<Rightarrow> if in_set P ic its ch then [] else [(Suc i, t)])"
| "rmatch P ic Eps = (\<lambda>c. [c])"
| "rmatch P ic (Seq a b) = (\<lambda>c. concat (map (rmatch P ic b) (rmatch P ic a c)))"
| "rmatch P ic (Alt a b) = (\<lambda>c. rmatch P ic a c @ rmatch P ic b c)"
| "rmatch P ic (Rep r lo hi) =
     (\<lambda>c. rep (rmatch P ic r) lo
        (case hi of None \<Rightarrow> lo + length (snd c) | Some h \<Rightarrow> h) c)"

text \<open>\<open>re.match\<close>: the text matched at the start of \<open>s\<close>, if any.\<close>

definition re_match :: "runtime \<Rightarrow> bool \<Rightarrow> rx \<Rightarrow> ustr \<Rightarrow> ustr option" where
  "re_match P ic r s =
     (case rmatch P ic r (0, s) of [] \<Rightarrow> None | (j, t) # _ \<Rightarrow> Some (take j s))"

definition lits :: "string \<Rightarrow> rx" where
  "lits s = foldr (\<lambda>c r. Seq (In [Lit (of_char c)]) r) s Eps"

definition seqs :: "rx list \<Rightarrow> rx" where
  "seqs rs = foldr Seq rs Eps"

definition Opt :: "rx \<Rightarrow> rx" where
  "Opt r = Rep r 0 (Some 1)"

definition Plus :: "rx \<Rightarrow> rx" where
  "Plus r = Rep r 1 None"

section \<open>URL validation (\<open>URLShortenerBot.is_valid_url\<close>)\<close>

definition alnum :: "item list" where
  "alnum = [Range (of_char CHR ''A'') (of_char CHR ''Z''), Range (of_char CHR ''0'') (of_char CHR ''9'')]"

definition alnum_hyphen :: "item list" where
  "alnum_hyphen = alnum @ [Lit (of_char CHR ''-'')]"

definition letter :: "item list" where
  "letter = [Range (of_char CHR ''A'') (of_char CHR ''Z'')]"

text \<open>\<^verbatim>\<open>(?:[A-Z0-9](?:[A-Z0-9-]{0,61}[A-Z0-9])?\.)+[A-Z]{2,6}\.?\<close>\<close>

definition rx_domain :: rx where
  "rx_domain =
     seqs [Plus (seqs [In alnum,
                       Opt (seqs [Rep (In alnum_hyphen) 0 (Some 61), In alnum]),
                       lits ''.'']),
           Rep (In letter) 2 (Some 6),
           Opt (lits ''.'')]"

text \<open>\<^verbatim>\<open>\d{1,3}\.\d{1,3}\.\d{1,3}\.\d{1,3}\<close>\<close>

definition rx_ip :: rx where
  "rx_ip =
     seqs [Rep (In [CatDigit]) 1 (Some 3), lits ''.'',
           Rep (In [CatDigit]) 1 (Some 3), lits ''.'',
           Rep (In [CatDigit]) 1 (Some 3), lits ''.'',
           Rep (In [CatDigit]) 1 (Some 3)]"

definition url_pattern :: rx where
  "url_pattern =
     seqs [Bol, lits ''http'', Opt (lits ''s''), lits ''://'',
           Alt rx_domain (Alt (lits ''localhost'') rx_ip),
           Opt (seqs [lits '':'', Plus (In [CatDigit])]),
           Alt (Opt (lits ''/''))
               (seqs [In [Lit (of_char CHR ''/''), Lit (of_char CHR ''?'')],
                      Plus (NotIn [CatSpace])]),
           Eol]"

definition is_valid_url :: "runtime \<Rightarrow> ustr \<Rightarrow> bool" where
  "is_valid_url P url = (re_match P True url_pattern url \<noteq> None)"

text \<open>
  An interpreter restricted to ASCII, for running the definitions on ASCII inputs: no
  character above 127 is a space, a digit or cased, as in CPython for the characters
  below 128.  Its digest is a stand-in for MD5 that depends on the length of the text
  only (every statement below holds for any digest function), \<open>capitalize\<close> is for
  lower-case ASCII words, and \<open>str()\<close> is left empty.
\<close>

definition ascii_hex :: "nat \<Rightarrow> nat" where
  "ascii_hex d = (if d < 10 then 48 + d else 87 + d)"

definition ascii_runtime :: runtime where
  "ascii_runtime = \<lparr>
     isspace = (\<lambda>c. (9 \<le> c \<and> c \<le> 13) \<or> (28 \<le> c \<and> c \<le> 32)),
     isdecimal = (\<lambda>c. 48 \<le> c \<and> c \<le> 57),
     tolower = (\<lambda>c. if 65 \<le> c \<and> c \<le> 90 then c + 32 else c),
     iscased = (\<lambda>c. (65 \<le> c \<and> c \<le> 90) \<or> (97 \<le> c \<and> c \<le> 122)),
     casefix = (\<lambda>c. if c = 105 then [305] else if c = 115 then [383] else []),
     capitalize = (\<lambda>s. case s of [] \<Rightarrow> []
                    | c # cs \<Rightarrow> (if 97 \<le> c \<and> c \<le> 122 then c - 32 else c) # cs),
     str_of = (\<lambda>v. []),
     md5_hexdigest = (\<lambda>s. replicate 32 (ascii_hex (length s mod 16)))
   \<rparr>"

section \<open>Python values and string methods\<close>

datatype exn = RequestException | ValueError | KeyError | TypeError | AttributeError

text \<open>Truth value of a Python object (\<open>if x:\<close>, \<open>not x\<close>, \<open>x or y\<close>).\<close>

fun truthy :: "json \<Rightarrow> bool" where
  "truthy JNull = False"
| "truthy (JBool b) = b"
| "truthy (JInt n) = (n \<noteq> 0)"
| "truthy (JFloat x) = (x \<noteq> 0)"
| "truthy (JStr s) = (s \<noteq> [])"
| "truthy (JArr xs) = (xs \<noteq> [])"
| "truthy (JObj kvs) = (kvs \<noteq> [])"

definition py_or :: "json \<Rightarrow> json \<Rightarrow> json" where
  "py_or a b = (if truthy a then a else b)"

text \<open>\<open>v[key]\<close> with a string key: only a dict can be subscripted by a string.\<close>

fun getitem :: "json \<Rightarrow> ustr \<Rightarrow> exn + json" where
  "getitem (JObj kvs) k = (case map_of kvs k of None \<Rightarrow> Inl KeyError | Some v \<Rightarrow> Inr v)"
| "getitem v k = Inl TypeError"

text \<open>\<open>v.get(key, default)\<close>: only a dict has the method.\<close>

fun py_get :: "json \<Rightarrow> ustr \<Rightarrow> json \<Rightarrow> exn + json" where
  "py_get (JObj kvs) k d = (case map_of kvs k of None \<Rightarrow> Inr d | Some v \<Rightarrow> Inr v)"
| "py_get v k d = Inl AttributeError"

text \<open>\<open>v == n\<close> for an integer literal \<open>n\<close>: numbers compare by value, \<open>True\<close> is 1.\<close>

fun eq_int :: "json \<Rightarrow> int \<Rightarrow> bool" where
  "eq_int (JInt m) n = (m = n)"
| "eq_int (JFloat x) n = (x = of_int n)"
| "eq_int (JBool b) n = ((if b then 1 else 0) = n)"
| "eq_int v n = False"

text \<open>A value inside an f-string: a string as it is, anything else through \<open>str()\<close>.\<close>

definition fmt :: "runtime \<Rightarrow> json \<Rightarrow> ustr" where
  "fmt P v = (case v of JStr s \<Rightarrow> s | _ \<Rightarrow> str_of P v)"

definition strip :: "runtime \<Rightarrow> ustr \<Rightarrow> ustr" where
  "strip P s = rev (dropWhile (isspace P) (rev (dropWhile (isspace P) s)))"

definition startswith :: "ustr \<Rightarrow> ustr \<Rightarrow> bool" where
  "startswith s p = (take (length p) s = p)"

text \<open>\<open>p in s\<close>.\<close>

fun contains :: "ustr \<Rightarrow> ustr \<Rightarrow> bool" where
  "contains [] p = (p = [])"
| "contains (c # cs) p = (startswith (c # cs) p \<or> contains cs p)"

text \<open>
  \<open>re.findall\<close> for a pattern without groups: the matches from left to right, the
  scan resuming where a match ended.  \<open>findall_from P ic r i s k\<close> stands at position
  \<open>i\<close> with \<open>s\<close> still to read, the first \<open>k\<close> characters of which belong to the
  match found before.
\<close>

fun findall_from :: "runtime \<Rightarrow> bool \<Rightarrow> rx \<Rightarrow> nat \<Rightarrow> ustr \<Rightarrow> nat \<Rightarrow> ustr list" where
  "findall_from P ic r i [] k =
     (if k = 0 \<and> rmatch P ic r (i, []) \<noteq> [] then [[]] else [])"
| "findall_from P ic r i (c # cs) k =
     (if 0 < k then findall_from P ic r (Suc i) cs (k - 1)
      else (case rmatch P ic r (i, c # cs) of
              [] \<Rightarrow> findall_from P ic r (Suc i) cs 0
            | (j, t) # _ \<Rightarrow>
                take (j - i) (c # cs) # findall_from P ic r (Suc i) cs (j - i - 1)))"

definition findall :: "runtime \<Rightarrow> bool \<Rightarrow> rx \<Rightarrow> ustr \<Rightarrow> ustr list" where
  "findall P ic r s = findall_from P ic r 0 s 0"

text \<open>\<^verbatim>\<open>https?://[^\s]+\<close>\<close>

definition embedded_url_pattern :: rx where
  "embedded_url_pattern =
     seqs [lits ''http'', Opt (lits ''s''), lits ''://'', Plus (NotIn [CatSpace])]"

text \<open>\<open>str(n)\<close> of a natural number.\<close>

fun dec :: "nat \<Rightarrow> ustr" where
  "dec n = (if n < 10 then [48 + n] else dec (n div 10) @ [48 + n mod 10])"

section \<open>Configuration (\<open>Config\<close>)\<close>

record service_info =
  name :: ustr
  api_url :: ustr
  requires_key :: bool

record config =
  BITLY_TOKEN :: ustr
  CUTTLY_API :: ustr
  GPLINKS_API :: ustr

definition SUPPORTED_SERVICES :: "(ustr \<times> service_info) list" where
  "SUPPORTED_SERVICES =
     [(str ''bitly'',
         \<lparr>name = str ''Bitly'', api_url = str ''https://api-ssl.bitly.com/v4/shorten'',
          requires_key = True\<rparr>),
      (str ''tinyurl'',
         \<lparr>name = str ''TinyURL'', api_url = str ''http://tinyurl.com/api-create.php'',
          requires_key = False\<rparr>),
      (str ''cuttly'',
         \<lparr>name = str ''Cuttly'', api_url = str ''https://cutt.ly/api/api.php'',
          requires_key = True\<rparr>),
      (str ''gplinks'',
         \<lparr>name = str ''GPLinks'', api_url = str ''https://gplinks.in/api'',
          requires_key = True\<rparr>)]"

section \<open>Effects: HTTP requests, log records, calls to the chat platform\<close>

datatype verb = GET | POST

datatype payload = NoBody | JsonBody "(ustr \<times> ustr) list" | FormBody "(ustr \<times> ustr) list"

record request =
  meth :: verb
  endpoint :: ustr
  params :: "(ustr \<times> ustr) list"
  headers :: "(ustr \<times> ustr) list"
  body :: payload
  timeout :: nat

text \<open>
  A response: its status, its text, and what \<open>response.json()\<close> gives (\<open>None\<close> when
  the body is not JSON and the call raises \<open>ValueError\<close>).
\<close>

record response =
  status_code :: int
  text_of :: ustr
  json_of :: "json option"

text \<open>The network answers a request with a response or raises (a transport error).\<close>

type_synonym network = "request \<Rightarrow> exn + response"

datatype tgcall =
    Answer
  | EditMessageText ustr bool "ustr option"
  | ReplyChatAction ustr
  | ReplyText ustr

text \<open>The chat platform: a call succeeds (\<open>None\<close>) or raises.\<close>

type_synonym telegram = "tgcall \<Rightarrow> exn option"

datatype event =
    Http request
  | LogInfo ustr
  | LogError ustr exn
  | Tg tgcall

text \<open>
  A computation gives a value or raises, and leaves a trace of the effects it performed,
  in order.
\<close>

type_synonym 'a comp = "(exn + 'a) \<times> event list"

definition ret :: "'a \<Rightarrow> 'a comp" where
  "ret x = (Inr x, [])"

definition raise :: "exn \<Rightarrow> 'a comp" where
  "raise e = (Inl e, [])"

definition lift :: "exn + 'a \<Rightarrow> 'a comp" where
  "lift r = (r, [])"

definition emit :: "event \<Rightarrow> unit comp" where
  "emit ev = (Inr (), [ev])"

definition bind :: "'a comp \<Rightarrow> ('a \<Rightarrow> 'b comp) \<Rightarrow> 'b comp" where
  "bind m f =
     (case m of
        (Inl e, tr) \<Rightarrow> (Inl e, tr)
      | (Inr x, tr) \<Rightarrow> (case f x of (r, tr') \<Rightarrow> (r, tr @ tr')))"

text \<open>\<open>try: m except Exception as e: h e\<close>.\<close>

definition catch :: "'a comp \<Rightarrow> (exn \<Rightarrow> 'a comp) \<Rightarrow> 'a comp" where
  "catch m h =
     (case m of
        (Inl e, tr) \<Rightarrow> (case h e of (r, tr') \<Rightarrow> (r, tr @ tr'))
      | (Inr x, tr) \<Rightarrow> (Inr x, tr))"

text \<open>\<open>try: m except ValueError: h\<close>: any other exception goes on.\<close>

definition catch_ValueError :: "'a comp \<Rightarrow> 'a comp \<Rightarrow> 'a comp" where
  "catch_ValueError m h =
     (case m of
        (Inl ValueError, tr) \<Rightarrow> (case h of (r, tr') \<Rightarrow> (r, tr @ tr'))
      | other \<Rightarrow> other)"

definition http :: "network \<Rightarrow> request \<Rightarrow> response comp" where
  "http net rq = (net rq, [Http rq])"

definition tgdo :: "telegram \<Rightarrow> tgcall \<Rightarrow> unit comp" where
  "tgdo tg c = ((case tg c of None \<Rightarrow> Inr () | Some e \<Rightarrow> Inl e), [Tg c])"

text \<open>\<open>response.json()\<close>.\<close>

definition json :: "response \<Rightarrow> exn + json" where
  "json response = (case json_of response of None \<Rightarrow> Inl ValueError | Some v \<Rightarrow> Inr v)"

text \<open>\<open>config.SUPPORTED_SERVICES[service]['api_url']\<close>.\<close>

definition service_api_url :: "ustr \<Rightarrow> exn + ustr" where
  "service_api_url service =
     (case map_of SUPPORTED_SERVICES service of
        None \<Rightarrow> Inl KeyError
      | Some info \<Rightarrow> Inr (api_url info))"


section \<open>The adapters (\<open>URLShortenerBot.shorten_url\<close>)\<close>

definition user_agent :: ustr where
  "user_agent = str ''Mozilla/5.0 (Windows NT 10.0; Win64; x64) AppleWebKit/537.36''"

definition gplinks_headers :: "(ustr \<times> ustr) list" where
  "gplinks_headers = [(str ''User-Agent'', user_agent), (str ''Accept'', str ''application/json'')]"

definition gplinks_get :: "config \<Rightarrow> ustr \<Rightarrow> request" where
  "gplinks_get cfg url =
     \<lparr>meth = GET, endpoint = str ''https://gplinks.in/api'',
      params = [(str ''api'', GPLINKS_API cfg), (str ''url'', url)],
      headers = gplinks_headers, body = NoBody, timeout = 15\<rparr>"

definition gplinks_post :: "config \<Rightarrow> ustr \<Rightarrow> request" where
  "gplinks_post cfg url =
     \<lparr>meth = POST, endpoint = str ''https://gplinks.in/api'', params = [],
      headers = gplinks_headers,
      body = FormBody [(str ''api'', GPLINKS_API cfg), (str ''url'', url)], timeout = 15\<rparr>"

text \<open>
  The block under \<open>if response.status_code == 200\<close> of the GET attempt.  \<open>Some v\<close>
  is \<open>return v\<close>; \<open>None\<close> means that control leaves the block and goes on to the POST
  attempt.
\<close>

definition gplinks_read_get :: "runtime \<Rightarrow> response \<Rightarrow> json option comp" where
  "gplinks_read_get P response =
     (let response_text = strip P (text_of response) in
      if startswith response_text (str ''http'') then ret (Some (JStr response_text))
      else
        catch_ValueError
          (bind (lift (json response)) (\<lambda>json_data.
           bind (lift (py_get json_data (str ''status'') JNull)) (\<lambda>status.
           if status = JStr (str ''success'') then
             bind (lift (py_get json_data (str ''shortenedUrl'') JNull)) (\<lambda>a.
             if truthy a then ret (Some a)
             else bind (lift (py_get json_data (str ''shorturl'') JNull)) (\<lambda>b. ret (Some b)))
           else ret None)))
          (if contains response_text (str ''http'') then
             (case findall P False embedded_url_pattern response_text of
                [] \<Rightarrow> ret None
              | u # _ \<Rightarrow> ret (Some (JStr u)))
           else ret None))"

text \<open>The body of the \<open>try\<close> block.\<close>

definition shorten_url_try :: "runtime \<Rightarrow> config \<Rightarrow> network \<Rightarrow> ustr \<Rightarrow> ustr \<Rightarrow> json comp" where
  "shorten_url_try P cfg net url service =
     (if \<not> is_valid_url P url then ret JNull
      else
        bind (emit (LogInfo (str ''Shortening URL with '' @ service @ str '': '' @ url))) (\<lambda>_.
        if service = str ''bitly'' then
          (if BITLY_TOKEN cfg = [] then ret JNull
           else
             bind (lift (service_api_url service)) (\<lambda>api.
             bind (http net
                    \<lparr>meth = POST, endpoint = api, params = [],
                     headers = [(str ''Authorization'', str ''Bearer '' @ BITLY_TOKEN cfg),
                                (str ''Content-Type'', str ''application/json'')],
                     body = JsonBody [(str ''long_url'', url)], timeout = 10\<rparr>) (\<lambda>response.
             if status_code response = 200 then
               bind (lift (json response)) (\<lambda>d. lift (getitem d (str ''link'')))
             else ret JNull)))
        else if service = str ''tinyurl'' then
          bind (lift (service_api_url service)) (\<lambda>api.
          bind (http net
                 \<lparr>meth = GET, endpoint = api, params = [(str ''url'', url)],
                  headers = [], body = NoBody, timeout = 10\<rparr>) (\<lambda>response.
          if status_code response = 200 then ret (JStr (strip P (text_of response)))
          else ret JNull))
        else if service = str ''cuttly'' then
          (if CUTTLY_API cfg = [] then ret JNull
           else
             bind (lift (service_api_url service)) (\<lambda>api.
             bind (http net
                    \<lparr>meth = GET, endpoint = api,
                     params = [(str ''key'', CUTTLY_API cfg), (str ''short'', url)],
                     headers = [], body = NoBody, timeout = 10\<rparr>) (\<lambda>response.
             if status_code response = 200 then
               bind (lift (json response)) (\<lambda>data.
               bind (lift (py_get data (str ''url'') (JObj []))) (\<lambda>u.
               bind (lift (py_get u (str ''status'') JNull)) (\<lambda>status.
               if eq_int status 7 then
                 bind (lift (getitem data (str ''url''))) (\<lambda>u'.
                 lift (getitem u' (str ''shortLink'')))
               else ret JNull)))
             else ret JNull)))
        else if service = str ''gplinks'' then
          (if GPLINKS_API cfg = [] then ret JNull
           else
             bind (http net (gplinks_get cfg url)) (\<lambda>response.
             bind (if status_code response = 200 then gplinks_read_get P response
                   else ret None) (\<lambda>returned.
             case returned of
               Some v \<Rightarrow> ret v
             | None \<Rightarrow>
                 bind (http net (gplinks_post cfg url)) (\<lambda>response.
                 if status_code response = 200 then
                   (let response_text = strip P (text_of response) in
                    if startswith response_text (str ''http'') then ret (JStr response_text)
                    else ret JNull)
                 else ret JNull))))
        else ret JNull))"

text \<open>
  \<open>shorten_url\<close>: the \<open>try\<close> block under \<open>except Exception\<close>, which logs and returns
  \<open>None\<close>.
\<close>

definition shorten_url :: "runtime \<Rightarrow> config \<Rightarrow> network \<Rightarrow> ustr \<Rightarrow> ustr \<Rightarrow> json comp" where
  "shorten_url P cfg net url service =
     catch (shorten_url_try P cfg net url service)
       (\<lambda>e. bind (emit (LogError (str ''Error shortening URL with '' @ service @ str '': '') e))
               (\<lambda>_. ret JNull))"


section \<open>The URL cache (\<open>generate_url_id\<close>, \<open>store_url\<close>, \<open>get_url\<close>)\<close>

text \<open>The module-level dictionary \<open>url_cache\<close>, passed explicitly.\<close>

type_synonym cache = "ustr \<rightharpoonup> ustr"

definition generate_url_id :: "runtime \<Rightarrow> ustr \<Rightarrow> ustr" where
  "generate_url_id P url = take 8 (md5_hexdigest P url)"

definition store_url :: "runtime \<Rightarrow> cache \<Rightarrow> ustr \<Rightarrow> ustr \<times> cache" where
  "store_url P url_cache url =
     (let url_id = generate_url_id P url in (url_id, url_cache(url_id \<mapsto> url)))"

definition get_url :: "cache \<Rightarrow> ustr \<Rightarrow> ustr" where
  "get_url url_cache url_id = (case url_cache url_id of None \<Rightarrow> [] | Some url \<Rightarrow> url)"


section \<open>Messages\<close>

text \<open>The non-ASCII characters of the message literals, as the source file has them.\<close>

definition mark_cross :: ustr where
  "mark_cross = [0x201A, 0xF9, 0xE5]"

definition mark_check :: ustr where
  "mark_check = [0x201A, 0xFA, 0xD6]"

definition mark_link :: ustr where
  "mark_link = [0xF8FF, 0xFC, 0xEE, 0xF3]"

definition mark_money :: ustr where
  "mark_money = [0xF8FF, 0xFC, 0xED, 0x221E]"

definition nl :: ustr where
  "nl = [10]"

definition markdown :: "ustr option" where
  "markdown = Some (str ''Markdown'')"

section \<open>Dispatch (\<open>send_single_shortened_url\<close>, \<open>send_all_shortened_urls\<close>)\<close>

text \<open>\<open>config.SUPPORTED_SERVICES.get(service, {}).get('name', dflt)\<close>.\<close>

definition service_name_of :: "ustr \<Rightarrow> ustr \<Rightarrow> ustr" where
  "service_name_of service dflt =
     (case map_of SUPPORTED_SERVICES service of None \<Rightarrow> dflt | Some info \<Rightarrow> name info)"

definition failed_to_shorten :: "ustr \<Rightarrow> ustr" where
  "failed_to_shorten service_name =
     mark_cross @ str '' Failed to shorten URL using '' @ service_name @ str ''.''"

definition send_single_shortened_url ::
    "runtime \<Rightarrow> config \<Rightarrow> network \<Rightarrow> telegram \<Rightarrow> ustr \<Rightarrow> ustr \<Rightarrow> unit comp" where
  "send_single_shortened_url P cfg net tg url service =
     catch
       (let service_name = service_name_of service (capitalize P service) in
        bind (shorten_url P cfg net url service) (\<lambda>shortened_url.
        if truthy shortened_url then
          (let message = mark_check @ str '' **'' @ service_name @ str ''**'' @ nl
                 @ mark_link @ str '' `'' @ fmt P shortened_url @ str ''`'';
               message = (if service = str ''gplinks''
                          then message @ nl @ nl @ mark_money
                                 @ str '' *Earn money with this shortened link!*''
                          else message)
           in tgdo tg (EditMessageText message True markdown))
        else
          (let error_msg = failed_to_shorten service_name
           in tgdo tg (EditMessageText error_msg False None))))
       (\<lambda>e. bind (emit (LogError (str ''Error sending single shortened URL: '') e)) (\<lambda>_.
             tgdo tg (EditMessageText
                       (mark_cross @ str '' Error generating shortened URL. Please try again.'')
                       False None)))"

text \<open>The two kinds of entry that the loop of \<open>send_all_shortened_urls\<close> appends.\<close>

definition success_entry :: "runtime \<Rightarrow> ustr \<Rightarrow> ustr \<Rightarrow> json \<Rightarrow> ustr" where
  "success_entry P service_key service_name shortened_url =
     mark_check @ str '' **'' @ service_name @ str ''**'' @ nl
       @ str ''`'' @ fmt P shortened_url @ str ''`''
       @ (if service_key = str ''gplinks'' then str '' '' @ mark_money else [])
       @ nl @ nl"

definition failure_entry :: "ustr \<Rightarrow> ustr" where
  "failure_entry service_name =
     mark_cross @ str '' **'' @ service_name @ str ''** - Failed'' @ nl @ nl"

text \<open>
  The \<open>for\<close> loop of \<open>send_all_shortened_urls\<close> over the items of
  \<open>config.SUPPORTED_SERVICES\<close>, with the loop variables \<open>message\<close> and
  \<open>successful_shortens\<close>.
\<close>

fun all_loop ::
    "runtime \<Rightarrow> config \<Rightarrow> network \<Rightarrow> ustr \<Rightarrow> (ustr \<times> service_info) list \<Rightarrow> ustr \<times> nat
       \<Rightarrow> (ustr \<times> nat) comp" where
  "all_loop P cfg net url [] acc = ret acc"
| "all_loop P cfg net url ((service_key, info) # rest) (message, successful_shortens) =
     (let service_name = name info in
      bind (shorten_url P cfg net url service_key) (\<lambda>shortened_url.
      all_loop P cfg net url rest
        (if truthy shortened_url then
           (message @ success_entry P service_key service_name shortened_url,
            successful_shortens + 1)
         else
           (message @ failure_entry service_name, successful_shortens))))"

definition all_header :: ustr where
  "all_header = mark_link @ str '' **Shortened URLs**'' @ nl @ nl"

definition all_failed :: ustr where
  "all_failed = mark_cross @ str '' All services failed. Please try again later.''"

definition success_count :: "nat \<Rightarrow> ustr" where
  "success_count successful_shortens =
     mark_check @ str '' **'' @ dec successful_shortens @ str ''/''
       @ dec (length SUPPORTED_SERVICES) @ str '' successful**''"

definition send_all_shortened_urls ::
    "runtime \<Rightarrow> config \<Rightarrow> network \<Rightarrow> telegram \<Rightarrow> ustr \<Rightarrow> unit comp" where
  "send_all_shortened_urls P cfg net tg url =
     catch
       (bind (all_loop P cfg net url SUPPORTED_SERVICES
                (all_header, 0))
          (\<lambda>(message, successful_shortens).
             let message =
               (if successful_shortens = 0 then all_failed
                else message @ success_count successful_shortens)
             in tgdo tg (EditMessageText message True markdown)))
       (\<lambda>e. bind (emit (LogError (str ''Error sending all shortened URLs: '') e)) (\<lambda>_.
             tgdo tg (EditMessageText
                       (mark_cross @ str '' Error generating shortened URLs. Please try again.'')
                       False None)))"

section \<open>The callback handler (\<open>button_handler\<close>)\<close>

text \<open>\<open>s.split(sep, maxsplit)\<close> for a separator of one character.\<close>

fun split_max :: "nat \<Rightarrow> nat \<Rightarrow> ustr \<Rightarrow> ustr list" where
  "split_max sep 0 s = [s]"
| "split_max sep (Suc n) s =
     (if sep \<in> set s
      then takeWhile (\<lambda>c. c \<noteq> sep) s # split_max sep n (tl (dropWhile (\<lambda>c. c \<noteq> sep) s))
      else [s])"

definition service_map :: "(ustr \<times> ustr) list" where
  "service_map =
     [(str ''bitly'', str ''bitly''), (str ''tiny'', str ''tinyurl''),
      (str ''cutt'', str ''cuttly''), (str ''gpl'', str ''gplinks''),
      (str ''all'', str ''all'')]"

text \<open>
  The body of the \<open>try\<close> block; \<open>data\<close> is \<open>query.data\<close>, which the chat platform
  may leave unset.
\<close>

definition url_not_found :: ustr where
  "url_not_found = mark_cross @ str '' URL not found. Please try again.''"

definition button_handler_try ::
    "runtime \<Rightarrow> config \<Rightarrow> network \<Rightarrow> telegram \<Rightarrow> cache \<Rightarrow> ustr option \<Rightarrow> unit comp" where
  "button_handler_try P cfg net tg url_cache query_data =
     bind (tgdo tg Answer) (\<lambda>_.
     case query_data of
       None \<Rightarrow> raise AttributeError
     | Some data \<Rightarrow>
         if startswith data (str ''s_'') then
           (case split_max (of_char CHR ''_'') 2 data of
              [_, service_code, url_id] \<Rightarrow>
                (let service = (case map_of service_map service_code of
                                  None \<Rightarrow> service_code | Some v \<Rightarrow> v);
                     url = get_url url_cache url_id
                 in if url = [] then
                      tgdo tg (EditMessageText url_not_found False None)
                    else
                      bind (tgdo tg (ReplyChatAction (str ''typing''))) (\<lambda>_.
                      if service = str ''all''
                      then send_all_shortened_urls P cfg net tg url
                      else send_single_shortened_url P cfg net tg url service))
            | _ \<Rightarrow>
                tgdo tg (EditMessageText
                          (mark_cross @ str '' Invalid request. Please try again.'')
                          False None))
         else
           tgdo tg (EditMessageText
                     (mark_cross @ str '' Unknown command. Please try again.'')
                     False None))"

definition button_handler ::
    "runtime \<Rightarrow> config \<Rightarrow> network \<Rightarrow> telegram \<Rightarrow> cache \<Rightarrow> ustr option \<Rightarrow> unit comp" where
  "button_handler P cfg net tg url_cache query_data =
     catch (button_handler_try P cfg net tg url_cache query_data)
       (\<lambda>e. bind (emit (LogError (str ''Error in button handler: '') e)) (\<lambda>_.
             catch
               (tgdo tg (EditMessageText
                          (mark_cross @ str '' An error occurred. Please try again.'')
                          False None))
               (\<lambda>_. tgdo tg (ReplyText
                               (mark_cross @ str '' An error occurred. Please try again.'')))))"

section \<open>Service status (\<open>check_service_status\<close>, \<open>api_status\<close>)\<close>

text \<open>\<open>bool(s)\<close> of a string.\<close>

definition bool_of_str :: "ustr \<Rightarrow> bool" where
  "bool_of_str s = (s \<noteq> [])"

text \<open>
  \<open>check_service_status\<close>, the same function in \<open>app.py\<close> and in \<open>bot.py\<close>: the
  dictionary \<open>status\<close> and \<open>sum(status.values()) + 1\<close>.
\<close>

definition check_service_status :: "config \<Rightarrow> (ustr \<times> bool) list \<times> nat" where
  "check_service_status cfg =
     (let status = [(str ''bitly'', bool_of_str (BITLY_TOKEN cfg)),
                    (str ''cuttly'', bool_of_str (CUTTLY_API cfg)),
                    (str ''gplinks'', bool_of_str (GPLINKS_API cfg))];
          connected_count = sum_list (map (\<lambda>(k, b). if b then 1 else 0) status) + 1
      in (status, connected_count))"

text \<open>\<open>services_status[key]\<close>.\<close>

definition status_item :: "(ustr \<times> bool) list \<Rightarrow> ustr \<Rightarrow> exn + bool" where
  "status_item status k = (case map_of status k of None \<Rightarrow> Inl KeyError | Some b \<Rightarrow> Inr b)"

definition service_entry :: "bool \<Rightarrow> bool \<Rightarrow> json" where
  "service_entry c h = JObj [(str ''connected'', JBool c), (str ''has_key'', JBool h)]"

text \<open>
  \<open>api_status\<close>, the same in both files; \<open>now\<close> stands for
  \<open>datetime.now().isoformat()\<close>.
\<close>

definition api_status :: "config \<Rightarrow> ustr \<Rightarrow> json comp" where
  "api_status cfg now =
     (case check_service_status cfg of (services_status, connected_count) \<Rightarrow>
        bind (lift (status_item services_status (str ''bitly''))) (\<lambda>bitly.
        bind (lift (status_item services_status (str ''cuttly''))) (\<lambda>cuttly.
        bind (lift (status_item services_status (str ''gplinks''))) (\<lambda>gplinks.
        ret (JObj
          [(str ''status'', JStr (str ''online'')),
           (str ''timestamp'', JStr now),
           (str ''services'', JObj
              [(str ''bitly'', service_entry bitly (bool_of_str (BITLY_TOKEN cfg))),
               (str ''tinyurl'', service_entry True False),
               (str ''cuttly'', service_entry cuttly (bool_of_str (CUTTLY_API cfg))),
               (str ''gplinks'', service_entry gplinks (bool_of_str (GPLINKS_API cfg)))]),
           (str ''summary'', JObj
              [(str ''total_services'', JInt 4),
               (str ''connected_services'', JInt (int connected_count))])])))))"

section \<open>Notions used in the statements\<close>

text \<open>Reading a nested dictionary along a list of keys.\<close>

fun path :: "json \<Rightarrow> ustr list \<Rightarrow> exn + json" where
  "path v [] = Inr v"
| "path v (k # ks) = (case getitem v k of Inl e \<Rightarrow> Inl e | Inr w \<Rightarrow> path w ks)"

text \<open>\<open>payload['services'][service]['connected']\<close>.\<close>

definition connected :: "json \<Rightarrow> ustr \<Rightarrow> exn + json" where
  "connected payload service = path payload [str ''services'', service, str ''connected'']"

text \<open>A computation is quiet when it makes no call to the chat platform.\<close>

fun is_tg :: "event \<Rightarrow> bool" where
  "is_tg (Tg c) = True"
| "is_tg ev = False"

definition quiet :: "'a comp \<Rightarrow> bool" where
  "quiet m = list_all (\<lambda>ev. \<not> is_tg ev) (snd m)"

text \<open>What an adapter returns for a service key, and the effects of the call.\<close>

definition adapter_result :: "runtime \<Rightarrow> config \<Rightarrow> network \<Rightarrow> ustr \<Rightarrow> ustr \<Rightarrow> json" where
  "adapter_result P cfg net url key =
     (case fst (shorten_url P cfg net url key) of Inl e \<Rightarrow> JNull | Inr v \<Rightarrow> v)"

definition adapter_trace :: "runtime \<Rightarrow> config \<Rightarrow> network \<Rightarrow> ustr \<Rightarrow> ustr \<Rightarrow> event list" where
  "adapter_trace P cfg net url key = snd (shorten_url P cfg net url key)"

text \<open>The entry of a service in the aggregate message: a success entry or a failure entry.\<close>

definition entry :: "runtime \<Rightarrow> config \<Rightarrow> network \<Rightarrow> ustr \<Rightarrow> ustr \<Rightarrow> ustr \<Rightarrow> ustr" where
  "entry P cfg net url key service_name =
     (if truthy (adapter_result P cfg net url key)
      then success_entry P key service_name (adapter_result P cfg net url key)
      else failure_entry service_name)"

definition service_keys :: "ustr list" where
  "service_keys = [str ''bitly'', str ''tinyurl'', str ''cuttly'', str ''gplinks'']"

text \<open>The number of adapters that returned a result.\<close>

definition successes :: "runtime \<Rightarrow> config \<Rightarrow> network \<Rightarrow> ustr \<Rightarrow> nat" where
  "successes P cfg net url =
     length (filter (\<lambda>key. truthy (adapter_result P cfg net url key)) service_keys)"

text \<open>A network for running the definitions: Bitly and TinyURL answer, the rest is down.\<close>

definition demo_net :: network where
  "demo_net rq =
     (if endpoint rq = str ''https://api-ssl.bitly.com/v4/shorten'' then
        Inr \<lparr>status_code = 200, text_of = str ''{\"link\": \"https://bit.ly/x\"}'',
             json_of = Some (JObj [(str ''link'', JStr (str ''https://bit.ly/x''))])\<rparr>
      else if endpoint rq = str ''http://tinyurl.com/api-create.php'' then
        Inr \<lparr>status_code = 200, text_of = str ''https://tinyurl.com/abc123'', json_of = None\<rparr>
      else Inl RequestException)"

definition demo_cfg :: config where
  "demo_cfg = \<lparr>BITLY_TOKEN = str ''token'', CUTTLY_API = [], GPLINKS_API = []\<rparr>"

definition down_net :: network where
  "down_net rq = Inl RequestException"

declare dec.simps [simp del]

text \<open>A computation avoids a call to the chat platform when the call is not in its trace.\<close>

definition avoids :: "tgcall \<Rightarrow> 'a comp \<Rightarrow> bool" where
  "avoids c m = (Tg c \<notin> set (snd m))"

text \<open>The call by which \<open>button_handler\<close> reports a lookup miss.\<close>

definition not_found_call :: tgcall where
  "not_found_call = EditMessageText url_not_found False None"

text \<open>A configuration with every credential set.\<close>

definition full_cfg :: config where
  "full_cfg = \<lparr>BITLY_TOKEN = str ''token'', CUTTLY_API = str ''key'', GPLINKS_API = str ''api''\<rparr>"








section \<open>The extraction strategies of the \<open>gplinks\<close> adapter\<close>

text \<open>The HTTP requests in a trace, in order.\<close>

fun requests :: "event list \<Rightarrow> request list" where
  "requests [] = []"
| "requests (Http rq # tr) = rq # requests tr"
| "requests (ev # tr) = requests tr"

text \<open>The check applied to the answer of the POST attempt.\<close>

definition gplinks_post_step :: "runtime \<Rightarrow> exn + response \<Rightarrow> json" where
  "gplinks_post_step P post =
     (case post of
        Inl e \<Rightarrow> JNull
      | Inr r \<Rightarrow>
          if status_code r = 200 \<and> startswith (strip P (text_of r)) (str ''http'')
          then JStr (strip P (text_of r)) else JNull)"

text \<open>The value of a key of a JSON object, \<open>None\<close> when the key is not set.\<close>

definition field :: "(ustr \<times> json) list \<Rightarrow> ustr \<Rightarrow> json" where
  "field kvs k = (case map_of kvs k of None \<Rightarrow> JNull | Some v \<Rightarrow> v)"

text \<open>
  The strategies as the specification orders them: the body that starts with \<open>http\<close>;
  else the JSON answer with \<open>status == "success"\<close>; else the first embedded URL; and
  the POST attempt when the GET attempt gave nothing.
\<close>

definition gplinks_claimed_get :: "runtime \<Rightarrow> exn + response \<Rightarrow> json option" where
  "gplinks_claimed_get P get =
     (case get of
        Inl e \<Rightarrow> None
      | Inr r \<Rightarrow>
          if status_code r \<noteq> 200 then None
          else if startswith (strip P (text_of r)) (str ''http'')
            then Some (JStr (strip P (text_of r)))
          else (case json_of r of
                  Some (JObj kvs) \<Rightarrow>
                    if field kvs (str ''status'') = JStr (str ''success'')
                    then Some (py_or (field kvs (str ''shortenedUrl'')) (field kvs (str ''shorturl'')))
                    else (case findall P False embedded_url_pattern (strip P (text_of r)) of
                            [] \<Rightarrow> None | u # _ \<Rightarrow> Some (JStr u))
                | _ \<Rightarrow>
                    (case findall P False embedded_url_pattern (strip P (text_of r)) of
                       [] \<Rightarrow> None | u # _ \<Rightarrow> Some (JStr u))))"

definition gplinks_claimed :: "runtime \<Rightarrow> exn + response \<Rightarrow> exn + response \<Rightarrow> json" where
  "gplinks_claimed P get post =
     (case gplinks_claimed_get P get of Some v \<Rightarrow> v | None \<Rightarrow> gplinks_post_step P post)"

text \<open>
  The strategies as the code orders them.  \<open>Some v\<close> ends the adapter with \<open>v\<close>;
  \<open>None\<close> goes on to the POST attempt.  The search for an embedded URL belongs to the
  case of a body that is no JSON; a JSON answer that is no object, and a transport error,
  end the adapter with \<open>None\<close>.
\<close>

definition gplinks_get_step :: "runtime \<Rightarrow> exn + response \<Rightarrow> json option" where
  "gplinks_get_step P get =
     (case get of
        Inl e \<Rightarrow> Some JNull
      | Inr r \<Rightarrow>
          if status_code r \<noteq> 200 then None
          else if startswith (strip P (text_of r)) (str ''http'')
            then Some (JStr (strip P (text_of r)))
          else (case json_of r of
                  Some (JObj kvs) \<Rightarrow>
                    if field kvs (str ''status'') = JStr (str ''success'')
                    then Some (py_or (field kvs (str ''shortenedUrl'')) (field kvs (str ''shorturl'')))
                    else None
                | Some v \<Rightarrow> Some JNull
                | None \<Rightarrow>
                    if contains (strip P (text_of r)) (str ''http'')
                    then (case findall P False embedded_url_pattern (strip P (text_of r)) of
                            [] \<Rightarrow> None | u # _ \<Rightarrow> Some (JStr u))
                    else None))"

definition gplinks_outcome :: "runtime \<Rightarrow> exn + response \<Rightarrow> exn + response \<Rightarrow> json" where
  "gplinks_outcome P get post =
     (case gplinks_get_step P get of Some v \<Rightarrow> v | None \<Rightarrow> gplinks_post_step P post)"

text \<open>The statements under \<open>try\<close> in the GET attempt, after \<open>response.json()\<close>.\<close>

definition read_json :: "json \<Rightarrow> json option comp" where
  "read_json json_data =
     bind (lift (py_get json_data (str ''status'') JNull)) (\<lambda>status.
           if status = JStr (str ''success'') then
             bind (lift (py_get json_data (str ''shortenedUrl'') JNull)) (\<lambda>a.
             if truthy a then ret (Some a)
             else bind (lift (py_get json_data (str ''shorturl'') JNull)) (\<lambda>b. ret (Some b)))
           else ret None)"

text \<open>A provider that reports an error in JSON, with a link in the message.\<close>

definition refusing_net :: network where
  "refusing_net rq =
     (if meth rq = GET then
        Inr \<lparr>status_code = 200,
             text_of = str ''{\"status\":\"error\",\"message\":\"see https://gplinks.in/member\"}'',
             json_of = Some (JObj [(str ''status'', JStr (str ''error'')),
                                   (str ''message'', JStr (str ''see https://gplinks.in/member''))])\<rparr>
      else Inr \<lparr>status_code = 403, text_of = str ''Forbidden'', json_of = None\<rparr>)"

section \<open>The language of a regular expression\<close>

text \<open>
  The texts an expression without anchors matches in full: the denotation against which
  the matcher is verified.
\<close>

fun lang :: "runtime \<Rightarrow> bool \<Rightarrow> rx \<Rightarrow> ustr set" where
  "lang P ic Bol = {}"
| "lang P ic Eol = {}"
| "lang P ic (In its) = {[ch] | ch. in_set P ic its ch}"
| "lang P ic (NotIn its) = {[ch] | ch. \<not> in_set P ic its ch}"
| "lang P ic Eps = {[]}"
| "lang P ic (Seq a b) = {p @ q | p q. p \<in> lang P ic a \<and> q \<in> lang P ic b}"
| "lang P ic (Alt a b) = lang P ic a \<union> lang P ic b"
| "lang P ic (Rep r lo hi) =
     {concat ws | ws. set ws \<subseteq> lang P ic r \<and> lo \<le> length ws \<and>
        (case hi of None \<Rightarrow> True | Some h \<Rightarrow> length ws \<le> h)}"

text \<open>
  The expressions the correspondence is proved for: no anchor inside, and no unbounded
  repetition of a body that matches the empty text.
\<close>

fun plain :: "runtime \<Rightarrow> bool \<Rightarrow> rx \<Rightarrow> bool" where
  "plain P ic Bol = False"
| "plain P ic Eol = False"
| "plain P ic (In its) = True"
| "plain P ic (NotIn its) = True"
| "plain P ic Eps = True"
| "plain P ic (Seq a b) = (plain P ic a \<and> plain P ic b)"
| "plain P ic (Alt a b) = (plain P ic a \<and> plain P ic b)"
| "plain P ic (Rep r lo hi) = (plain P ic r \<and> (hi = None \<longrightarrow> [] \<notin> lang P ic r))"

text \<open>The configurations reached from \<open>c\<close> by reading a text of \<open>L\<close>.\<close>

definition ends :: "ustr set \<Rightarrow> cfg \<Rightarrow> cfg set" where
  "ends L c = {(fst c + length p, t) | p t. p \<in> L \<and> snd c = p @ t}"

section \<open>The shape of a valid URL\<close>

text \<open>The pattern of \<open>is_valid_url\<close> between \<open>^\<close> and \<open>$\<close>.\<close>

definition url_body :: "rx list" where
  "url_body =
     [lits ''http'', Opt (lits ''s''), lits ''://'',
      Alt rx_domain (Alt (lits ''localhost'') rx_ip),
      Opt (seqs [lits '':'', Plus (In [CatDigit])]),
      Alt (Opt (lits ''/''))
          (seqs [In [Lit (of_char CHR ''/''), Lit (of_char CHR ''?'')],
                 Plus (NotIn [CatSpace])])]"

text \<open>
  The description of the accepted strings, in the words of the specification.  Letters
  and literal texts are compared as \<open>re.IGNORECASE\<close> compares them: \<open>ci_text P s w\<close>
  says that \<open>w\<close> is the ASCII text \<open>s\<close> up to case.
\<close>

definition ci_text :: "runtime \<Rightarrow> string \<Rightarrow> ustr \<Rightarrow> bool" where
  "ci_text P s w = list_all2 (\<lambda>c ch. in_set P True [Lit (of_char c)] ch) s w"

definition is_alnum :: "runtime \<Rightarrow> nat \<Rightarrow> bool" where
  "is_alnum P ch = in_set P True alnum ch"

definition is_alnum_hyphen :: "runtime \<Rightarrow> nat \<Rightarrow> bool" where
  "is_alnum_hyphen P ch = in_set P True alnum_hyphen ch"

definition is_letter :: "runtime \<Rightarrow> nat \<Rightarrow> bool" where
  "is_letter P ch = in_set P True letter ch"

text \<open>
  A label: letters, digits and hyphens, at most 63 of them, neither the first nor the
  last a hyphen.
\<close>

definition label :: "runtime \<Rightarrow> ustr \<Rightarrow> bool" where
  "label P l =
     ((\<exists>a. is_alnum P a \<and> l = [a]) \<or>
      (\<exists>a mid b. is_alnum P a \<and> list_all (is_alnum_hyphen P) mid \<and> length mid \<le> 61 \<and>
         is_alnum P b \<and> l = a # mid @ [b]))"

definition dotted_label :: "runtime \<Rightarrow> ustr \<Rightarrow> bool" where
  "dotted_label P w = (\<exists>l d. label P l \<and> ci_text P ''.'' d \<and> w = l @ d)"

definition tld :: "runtime \<Rightarrow> ustr \<Rightarrow> bool" where
  "tld P t = (2 \<le> length t \<and> length t \<le> 6 \<and> list_all (is_letter P) t)"

text \<open>One or more labels, each followed by a dot, then the TLD, then possibly a last dot.\<close>

definition dns_host :: "runtime \<Rightarrow> ustr \<Rightarrow> bool" where
  "dns_host P h =
     (\<exists>ls t e. ls \<noteq> [] \<and> list_all (dotted_label P) ls \<and> tld P t \<and>
        (e = [] \<or> ci_text P ''.'' e) \<and> h = concat ls @ t @ e)"

text \<open>One to three decimal digits; the value is not bounded by 255.\<close>

definition octet :: "runtime \<Rightarrow> ustr \<Rightarrow> bool" where
  "octet P a = (1 \<le> length a \<and> length a \<le> 3 \<and> list_all (isdecimal P) a)"

definition ipv4 :: "runtime \<Rightarrow> ustr \<Rightarrow> bool" where
  "ipv4 P h =
     (\<exists>a d1 b d2 c d3 d. octet P a \<and> ci_text P ''.'' d1 \<and> octet P b \<and> ci_text P ''.'' d2 \<and>
        octet P c \<and> ci_text P ''.'' d3 \<and> octet P d \<and> h = a @ d1 @ b @ d2 @ c @ d3 @ d)"

definition host :: "runtime \<Rightarrow> ustr \<Rightarrow> bool" where
  "host P h = (dns_host P h \<or> ci_text P ''localhost'' h \<or> ipv4 P h)"

definition scheme :: "runtime \<Rightarrow> ustr \<Rightarrow> bool" where
  "scheme P w = (ci_text P ''http://'' w \<or> ci_text P ''https://'' w)"

definition port :: "runtime \<Rightarrow> ustr \<Rightarrow> bool" where
  "port P p =
     (p = [] \<or> (\<exists>c ds. ci_text P '':'' c \<and> ds \<noteq> [] \<and> list_all (isdecimal P) ds \<and> p = c @ ds))"

text \<open>Nothing, a single slash, or a slash or question mark followed by characters that are no spaces.\<close>

definition path_query :: "runtime \<Rightarrow> ustr \<Rightarrow> bool" where
  "path_query P q =
     (q = [] \<or> ci_text P ''/'' q \<or>
      (\<exists>c rest. in_set P True [Lit (of_char CHR ''/''), Lit (of_char CHR ''?'')] c \<and>
         rest \<noteq> [] \<and> list_all (\<lambda>ch. \<not> isspace P ch) rest \<and> q = c # rest))"

text \<open>The accepted strings: scheme, host, port, path or query, and possibly one final newline.\<close>

definition accepted :: "runtime \<Rightarrow> ustr \<Rightarrow> bool" where
  "accepted P s =
     (\<exists>sch h p q e. scheme P sch \<and> host P h \<and> port P p \<and> path_query P q \<and>
        (e = [] \<or> e = [10]) \<and> s = sch @ h @ p @ q @ e)"

text \<open>The string starts with \<open>http://\<close> or \<open>https://\<close>, case ignored.\<close>

definition starts_with_scheme :: "runtime \<Rightarrow> ustr \<Rightarrow> bool" where
  "starts_with_scheme P s = (scheme P (take 7 s) \<or> scheme P (take 8 s))"

section \<open>Computations\<close>

lemma bind_ret [simp]: "bind (ret x) f = f x"
  by (simp add: bind_def ret_def split: prod.splits)

lemma bind_lift_Inr [simp]: "bind (lift (Inr x)) f = f x"
  by (simp add: bind_def lift_def split: prod.splits)

lemma bind_lift_Inl [simp]: "bind (lift (Inl e)) f = (Inl e, [])"
  by (simp add: bind_def lift_def)

lemma bind_Inr: "bind (Inr x, tr) f = (fst (f x), tr @ snd (f x))"
  by (simp add: bind_def split: prod.splits)

lemma bind_Inl: "bind (Inl e, tr) f = (Inl e, tr)"
  by (simp add: bind_def)

lemma bind_emit: "bind (emit ev) f = (fst (f ()), ev # snd (f ()))"
  by (simp add: bind_def emit_def split: prod.splits)

section \<open>Service status\<close>

text \<open>
  C5.  Whatever the credentials are, the status payload reports \<open>tinyurl\<close> as
  connected; it reports \<open>bitly\<close>, \<open>cuttly\<close> and \<open>gplinks\<close> as connected exactly when
  the credential of the service is a non-empty string; and the count of connected
  services is the number of services reported as connected, which is one plus the number
  of non-empty credentials.
\<close>

theorem service_status_connected:
  "\<exists>payload. api_status cfg now = (Inr payload, []) \<and>
     connected payload (str ''tinyurl'') = Inr (JBool True) \<and>
     connected payload (str ''bitly'') = Inr (JBool (BITLY_TOKEN cfg \<noteq> [])) \<and>
     connected payload (str ''cuttly'') = Inr (JBool (CUTTLY_API cfg \<noteq> [])) \<and>
     connected payload (str ''gplinks'') = Inr (JBool (GPLINKS_API cfg \<noteq> [])) \<and>
     path payload [str ''summary'', str ''connected_services''] =
       Inr (JInt (int (length (filter (\<lambda>service. connected payload service = Inr (JBool True))
                                 (map fst SUPPORTED_SERVICES))))) \<and>
     snd (check_service_status cfg) =
       1 + length (filter (\<lambda>credential. credential \<noteq> [])
                     [BITLY_TOKEN cfg, CUTTLY_API cfg, GPLINKS_API cfg])"
  by (simp add: api_status_def check_service_status_def status_item_def bool_of_str_def
      service_entry_def connected_def SUPPORTED_SERVICES_def str_def ret_def)

section \<open>The cache\<close>



text \<open>
  C6.  Storing a URL and reading the returned id gives the URL back, whatever the cache
  held before.  When two URLs have the same short id, the second \<open>store_url\<close> returns
  the id of the first and overwrites its entry: the id gave the first URL before, and
  gives the second one afterwards.
\<close>

theorem cache_round_trip:
  "get_url (snd (store_url P c u)) (fst (store_url P c u)) = u \<and>
   (generate_url_id P u1 = generate_url_id P u2 \<longrightarrow>
      fst (store_url P (snd (store_url P c u1)) u2) = fst (store_url P c u1) \<and>
      get_url (snd (store_url P c u1)) (fst (store_url P c u1)) = u1 \<and>
      get_url (snd (store_url P (snd (store_url P c u1)) u2)) (fst (store_url P c u1)) = u2)"
  by (simp add: store_url_def get_url_def Let_def)

theorem cache_round_trip_witness:
  "is_valid_url ascii_runtime (str ''http://a.co'') \<and>
   is_valid_url ascii_runtime (str ''http://b.co'') \<and>
   str ''http://a.co'' \<noteq> str ''http://b.co'' \<and>
   generate_url_id ascii_runtime (str ''http://a.co'')
     = generate_url_id ascii_runtime (str ''http://b.co'') \<and>
   get_url (snd (store_url ascii_runtime
                  (snd (store_url ascii_runtime Map.empty (str ''http://a.co'')))
                  (str ''http://b.co'')))
     (fst (store_url ascii_runtime Map.empty (str ''http://a.co''))) = str ''http://b.co''"
proof -
  have v1: "is_valid_url ascii_runtime (str ''http://a.co'')"
    by code_simp
  have v2: "is_valid_url ascii_runtime (str ''http://b.co'')"
    by code_simp
  have ne: "str ''http://a.co'' \<noteq> str ''http://b.co''"
    by (simp add: str_def)
  have coll: "generate_url_id ascii_runtime (str ''http://a.co'')
                = generate_url_id ascii_runtime (str ''http://b.co'')"
    by (simp add: generate_url_id_def ascii_runtime_def str_def)
  from v1 v2 ne coll
    cache_round_trip [of ascii_runtime Map.empty "str ''http://a.co''"
                         "str ''http://a.co''" "str ''http://b.co''"]
  show ?thesis
    by blast
qed

section \<open>The adapters\<close>

text \<open>
  C9.  For a string that \<open>is_valid_url\<close> rejects, \<open>shorten_url\<close> returns \<open>None\<close>
  for every service key and performs nothing: no request is sent and nothing is logged.
\<close>

theorem invalid_url_no_call:
  "\<not> is_valid_url P u \<Longrightarrow> shorten_url P cfg net u service = (Inr JNull, [])"
  by (simp add: shorten_url_def shorten_url_try_def catch_def ret_def)

theorem invalid_url_no_call_witness:
  "\<not> is_valid_url ascii_runtime (str ''ftp://a.co'') \<and>
   shorten_url ascii_runtime \<lparr>BITLY_TOKEN = str ''t'', CUTTLY_API = [], GPLINKS_API = []\<rparr>
     (\<lambda>rq. Inl RequestException) (str ''ftp://a.co'') (str ''bitly'') = (Inr JNull, [])"
proof -
  have invalid: "\<not> is_valid_url ascii_runtime (str ''ftp://a.co'')"
    by code_simp
  from invalid invalid_url_no_call [OF invalid] show ?thesis
    by simp
qed

section \<open>Dispatch to all services\<close>

lemma shorten_url_total: "\<exists>v. fst (shorten_url P cfg net url service) = Inr v"
  by (auto simp: shorten_url_def catch_def bind_emit ret_def split: prod.splits sum.splits)

lemma shorten_url_eq:
  "shorten_url P cfg net url key =
     (Inr (adapter_result P cfg net url key), adapter_trace P cfg net url key)"
  using shorten_url_total [of P cfg net url key]
  by (auto simp: adapter_result_def adapter_trace_def prod_eq_iff)

lemma all_loop_eq:
  "all_loop P cfg net url svcs (msg, n) =
     (Inr (msg @ concat (map (\<lambda>(key, info). entry P cfg net url key (name info)) svcs),
           n + length (filter (\<lambda>(key, info). truthy (adapter_result P cfg net url key)) svcs)),
      concat (map (\<lambda>(key, info). adapter_trace P cfg net url key) svcs))"
proof (induction svcs arbitrary: msg n)
  case Nil
  show ?case by (simp add: ret_def)
next
  case (Cons s svcs)
  obtain key info where s: "s = (key, info)" by (cases s)
  show ?case
    by (simp add: s shorten_url_eq bind_Inr Cons.IH entry_def Let_def)
qed

lemma keys_of_services: "map fst SUPPORTED_SERVICES = service_keys"
  by (simp add: SUPPORTED_SERVICES_def service_keys_def)

lemma length_filter_fst:
  "length (filter (\<lambda>(key, info). Q key) svcs) = length (filter Q (map fst svcs))"
  by (induction svcs) auto

lemma concat_map_fst:
  "concat (map (\<lambda>(key, info). f key) svcs) = concat (map f (map fst svcs))"
  by (induction svcs) auto

lemma catch_tgdo_trace:
  "\<exists>r rest. catch (bind (Inr y, tr) (\<lambda>y. tgdo tg (c y))) h = (r, tr @ Tg (c y) # rest)"
  by (cases "tg (c y)"; cases "h (the (tg (c y)))") (simp_all add: catch_def bind_Inr tgdo_def)

lemma length_filter_0_iff: "(length (filter Q xs) = 0) = (\<not> list_ex Q xs)"
  by (induction xs) auto

lemma entries_of_services:
  "concat (map (\<lambda>(key, info). entry P cfg net url key (name info)) SUPPORTED_SERVICES) =
     entry P cfg net url (str ''bitly'') (str ''Bitly'')
       @ entry P cfg net url (str ''tinyurl'') (str ''TinyURL'')
       @ entry P cfg net url (str ''cuttly'') (str ''Cuttly'')
       @ entry P cfg net url (str ''gplinks'') (str ''GPLinks'')"
  by (simp add: SUPPORTED_SERVICES_def)

lemma send_all_eq:
  "\<exists>r rest. send_all_shortened_urls P cfg net tg url =
     (r, concat (map (adapter_trace P cfg net url) service_keys) @
         Tg (EditMessageText
               (if list_ex (\<lambda>key. truthy (adapter_result P cfg net url key)) service_keys
                then all_header
                       @ entry P cfg net url (str ''bitly'') (str ''Bitly'')
                       @ entry P cfg net url (str ''tinyurl'') (str ''TinyURL'')
                       @ entry P cfg net url (str ''cuttly'') (str ''Cuttly'')
                       @ entry P cfg net url (str ''gplinks'') (str ''GPLinks'')
                       @ success_count (length (filter (\<lambda>key. truthy (adapter_result P cfg net url key)) service_keys))
                else all_failed) True markdown) # rest)"
proof -
  let ?k = "length (filter (\<lambda>key. truthy (adapter_result P cfg net url key)) service_keys)"
  let ?m = "all_header
              @ entry P cfg net url (str ''bitly'') (str ''Bitly'')
              @ entry P cfg net url (str ''tinyurl'') (str ''TinyURL'')
              @ entry P cfg net url (str ''cuttly'') (str ''Cuttly'')
              @ entry P cfg net url (str ''gplinks'') (str ''GPLinks'')"
  let ?tr = "concat (map (adapter_trace P cfg net url) service_keys)"
  let ?c = "\<lambda>(message, successful_shortens).
              EditMessageText (if successful_shortens = 0 then all_failed
                               else message @ success_count successful_shortens) True markdown"
  have loop: "all_loop P cfg net url SUPPORTED_SERVICES (all_header, 0) = (Inr (?m, ?k), ?tr)"
    by (simp only: all_loop_eq entries_of_services length_filter_fst concat_map_fst
        keys_of_services append_assoc add_0)
  let ?h = "\<lambda>e. bind (emit (LogError (str ''Error sending all shortened URLs: '') e)) (\<lambda>_.
             tgdo tg (EditMessageText
                       (mark_cross @ str '' Error generating shortened URLs. Please try again.'')
                       False None))"
  have shape: "send_all_shortened_urls P cfg net tg url =
      catch (bind (Inr (?m, ?k), ?tr) (\<lambda>y. tgdo tg (?c y))) ?h"
    unfolding send_all_shortened_urls_def loop
    by (simp add: case_prod_unfold Let_def)
  from catch_tgdo_trace [of "(?m, ?k)" ?tr tg ?c ?h]
  obtain r rest where "send_all_shortened_urls P cfg net tg url = (r, ?tr @ Tg (?c (?m, ?k)) # rest)"
    unfolding shape by blast
  then have "send_all_shortened_urls P cfg net tg url =
      (r, ?tr @ Tg (EditMessageText (if ?k = 0 then all_failed else ?m @ success_count ?k)
                      True markdown) # rest)"
    by simp
  then show ?thesis
    by (simp only: length_filter_0_iff if_not_P if_P append_assoc split: if_splits) auto
qed

lemma catch_keeps_trace: "\<exists>r rest. catch (x, tr) h = (r, tr @ rest)"
  by (cases x; cases "h (projl x)") (simp_all add: catch_def)

lemma shorten_url_logs:
  assumes "is_valid_url P url"
  shows "\<exists>tl. adapter_trace P cfg net url key
          = LogInfo (str ''Shortening URL with '' @ key @ str '': '' @ url) # tl"
proof -
  let ?ev = "LogInfo (str ''Shortening URL with '' @ key @ str '': '' @ url)"
  obtain x tl where body: "shorten_url_try P cfg net url key = (x, ?ev # tl)"
    unfolding shorten_url_try_def using assms by (simp add: bind_emit)
  have "\<exists>r rest. shorten_url P cfg net url key = (r, (?ev # tl) @ rest)"
    unfolding shorten_url_def body by (rule catch_keeps_trace)
  then show ?thesis
    by (auto simp: adapter_trace_def)
qed

lemma dec_digit: "n < 10 \<Longrightarrow> dec n = [48 + n]"
  by (simp add: dec.simps)

lemma success_count_eq:
  "success_count k = mark_check @ str '' **'' @ dec k @ str ''/4 successful**''"
  by (simp add: success_count_def SUPPORTED_SERVICES_def dec_digit str_def)

lemma successes_pos:
  "list_ex (\<lambda>key. truthy (adapter_result P cfg net url key)) service_keys
     = (1 \<le> successes P cfg net url)"
proof -
  have "(1 \<le> length (filter Q xs)) = list_ex Q xs" for Q :: "ustr \<Rightarrow> bool" and xs
    by (induction xs) auto
  then show ?thesis
    by (simp add: successes_def)
qed

lemma successes_le: "successes P cfg net url \<le> 4"
  using length_filter_le [of "\<lambda>key. truthy (adapter_result P cfg net url key)" service_keys]
  by (simp add: successes_def service_keys_def)

lemma fmt_JStr: "fmt P (JStr s) = s"
  by (simp add: fmt_def)

lemma entry_text:
  "entry P cfg net url key service_name =
     (if truthy (adapter_result P cfg net url key)
      then [0x201A, 0xFA, 0xD6] @ str '' **'' @ service_name @ str ''**'' @ [10]
             @ str ''`'' @ fmt P (adapter_result P cfg net url key) @ str ''`''
             @ (if key = str ''gplinks'' then str '' '' @ [0xF8FF, 0xFC, 0xED, 0x221E] else [])
             @ [10, 10]
      else [0x201A, 0xF9, 0xE5] @ str '' **'' @ service_name @ str ''** - Failed'' @ [10, 10])"
  by (simp add: entry_def success_entry_def failure_entry_def mark_check_def mark_cross_def
      mark_money_def nl_def)

text \<open>
  C3.  For a valid URL, \<open>send_all_shortened_urls\<close> calls the adapters of \<open>bitly\<close>,
  \<open>tinyurl\<close>, \<open>cuttly\<close> and \<open>gplinks\<close>, all four and in this order, whatever each
  returns: its effects are the effects of the four calls one after the other (each
  starting with the log record of the call), followed by the message.  When at least one
  adapter returns a result, the message is, character by character: the header
  \<open>**Shortened URLs**\<close> after the link mark, and an empty line; then for each service, in
  the same order, either the check mark with \<open>**Name**\<close> and on the next line the
  shortened URL between backquotes (followed by a space and the money mark for
  \<open>gplinks\<close>), or the cross mark with \<open>**Name** - Failed\<close>, each followed by an empty
  line; then the check mark with the trailer \<open>**k/4 successful**\<close>, where the digit
  \<open>k\<close>, from 1 to 4, is the number of adapters that returned a result.  A result that is
  a string is written as it is.  The marks are the characters the source file has, given
  by their code points.
\<close>

theorem all_services_aggregate:
  assumes "is_valid_url P url"
    and "list_ex (\<lambda>key. truthy (adapter_result P cfg net url key)) service_keys"
  shows "map fst SUPPORTED_SERVICES
           = [str ''bitly'', str ''tinyurl'', str ''cuttly'', str ''gplinks''] \<and>
         (\<exists>r rest. send_all_shortened_urls P cfg net tg url =
            (r, adapter_trace P cfg net url (str ''bitly'')
                  @ adapter_trace P cfg net url (str ''tinyurl'')
                  @ adapter_trace P cfg net url (str ''cuttly'')
                  @ adapter_trace P cfg net url (str ''gplinks'')
                  @ Tg (EditMessageText
                          ([0xF8FF, 0xFC, 0xEE, 0xF3] @ str '' **Shortened URLs**'' @ [10, 10]
                             @ (if truthy (adapter_result P cfg net url (str ''bitly''))
                                then [0x201A, 0xFA, 0xD6] @ str '' **Bitly**'' @ [10] @ str ''`''
                                       @ fmt P (adapter_result P cfg net url (str ''bitly''))
                                       @ str ''`'' @ [10, 10]
                                else [0x201A, 0xF9, 0xE5] @ str '' **Bitly** - Failed'' @ [10, 10])
                             @ (if truthy (adapter_result P cfg net url (str ''tinyurl''))
                                then [0x201A, 0xFA, 0xD6] @ str '' **TinyURL**'' @ [10] @ str ''`''
                                       @ fmt P (adapter_result P cfg net url (str ''tinyurl''))
                                       @ str ''`'' @ [10, 10]
                                else [0x201A, 0xF9, 0xE5] @ str '' **TinyURL** - Failed'' @ [10, 10])
                             @ (if truthy (adapter_result P cfg net url (str ''cuttly''))
                                then [0x201A, 0xFA, 0xD6] @ str '' **Cuttly**'' @ [10] @ str ''`''
                                       @ fmt P (adapter_result P cfg net url (str ''cuttly''))
                                       @ str ''`'' @ [10, 10]
                                else [0x201A, 0xF9, 0xE5] @ str '' **Cuttly** - Failed'' @ [10, 10])
                             @ (if truthy (adapter_result P cfg net url (str ''gplinks''))
                                then [0x201A, 0xFA, 0xD6] @ str '' **GPLinks**'' @ [10] @ str ''`''
                                       @ fmt P (adapter_result P cfg net url (str ''gplinks''))
                                       @ str ''` '' @ [0xF8FF, 0xFC, 0xED, 0x221E] @ [10, 10]
                                else [0x201A, 0xF9, 0xE5] @ str '' **GPLinks** - Failed'' @ [10, 10])
                             @ [0x201A, 0xFA, 0xD6] @ str '' **''
                             @ [48 + successes P cfg net url] @ str ''/4 successful**'')
                          True (Some (str ''Markdown''))) # rest)) \<and>
         (\<forall>s. fmt P (JStr s) = s) \<and>
         list_all (\<lambda>key. \<exists>tl. adapter_trace P cfg net url key
                     = LogInfo (str ''Shortening URL with '' @ key @ str '': '' @ url) # tl)
           service_keys \<and>
         1 \<le> successes P cfg net url \<and> successes P cfg net url \<le> 4"
proof -
  have keys: "map fst SUPPORTED_SERVICES
                = [str ''bitly'', str ''tinyurl'', str ''cuttly'', str ''gplinks'']"
    by (simp add: SUPPORTED_SERVICES_def)
  have k: "dec (successes P cfg net url) = [48 + successes P cfg net url]"
    using successes_le [of P cfg net url] by (simp add: dec_digit)
  have header: "all_header = [0xF8FF, 0xFC, 0xEE, 0xF3] @ str '' **Shortened URLs**'' @ [10, 10]"
    by (simp add: all_header_def mark_link_def nl_def)
  have trailer: "success_count (successes P cfg net url)
      = [0x201A, 0xFA, 0xD6] @ str '' **'' @ [48 + successes P cfg net url] @ str ''/4 successful**''"
    by (simp add: success_count_eq k mark_check_def)
  have bitly: "entry P cfg net url (str ''bitly'') (str ''Bitly'') =
      (if truthy (adapter_result P cfg net url (str ''bitly''))
       then [0x201A, 0xFA, 0xD6] @ str '' **Bitly**'' @ [10] @ str ''`''
              @ fmt P (adapter_result P cfg net url (str ''bitly'')) @ str ''`'' @ [10, 10]
       else [0x201A, 0xF9, 0xE5] @ str '' **Bitly** - Failed'' @ [10, 10])"
    by (simp add: entry_text) (simp add: str_def)
  have tinyurl: "entry P cfg net url (str ''tinyurl'') (str ''TinyURL'') =
      (if truthy (adapter_result P cfg net url (str ''tinyurl''))
       then [0x201A, 0xFA, 0xD6] @ str '' **TinyURL**'' @ [10] @ str ''`''
              @ fmt P (adapter_result P cfg net url (str ''tinyurl'')) @ str ''`'' @ [10, 10]
       else [0x201A, 0xF9, 0xE5] @ str '' **TinyURL** - Failed'' @ [10, 10])"
    by (simp add: entry_text) (simp add: str_def)
  have cuttly: "entry P cfg net url (str ''cuttly'') (str ''Cuttly'') =
      (if truthy (adapter_result P cfg net url (str ''cuttly''))
       then [0x201A, 0xFA, 0xD6] @ str '' **Cuttly**'' @ [10] @ str ''`''
              @ fmt P (adapter_result P cfg net url (str ''cuttly'')) @ str ''`'' @ [10, 10]
       else [0x201A, 0xF9, 0xE5] @ str '' **Cuttly** - Failed'' @ [10, 10])"
    by (simp add: entry_text) (simp add: str_def)
  have gplinks: "entry P cfg net url (str ''gplinks'') (str ''GPLinks'') =
      (if truthy (adapter_result P cfg net url (str ''gplinks''))
       then [0x201A, 0xFA, 0xD6] @ str '' **GPLinks**'' @ [10] @ str ''`''
              @ fmt P (adapter_result P cfg net url (str ''gplinks''))
              @ str ''` '' @ [0xF8FF, 0xFC, 0xED, 0x221E] @ [10, 10]
       else [0x201A, 0xF9, 0xE5] @ str '' **GPLinks** - Failed'' @ [10, 10])"
    by (simp add: entry_text) (simp add: str_def)
  from send_all_eq [of P cfg net tg url] assms(2)
  have msg: "\<exists>r rest. send_all_shortened_urls P cfg net tg url =
            (r, adapter_trace P cfg net url (str ''bitly'')
                  @ adapter_trace P cfg net url (str ''tinyurl'')
                  @ adapter_trace P cfg net url (str ''cuttly'')
                  @ adapter_trace P cfg net url (str ''gplinks'')
                  @ Tg (EditMessageText
                          (all_header
                             @ entry P cfg net url (str ''bitly'') (str ''Bitly'')
                             @ entry P cfg net url (str ''tinyurl'') (str ''TinyURL'')
                             @ entry P cfg net url (str ''cuttly'') (str ''Cuttly'')
                             @ entry P cfg net url (str ''gplinks'') (str ''GPLinks'')
                             @ success_count (successes P cfg net url))
                          True markdown) # rest)"
    by (simp add: successes_def [symmetric]) (simp add: service_keys_def)
  have lit: "\<exists>r rest. send_all_shortened_urls P cfg net tg url =
            (r, adapter_trace P cfg net url (str ''bitly'')
                  @ adapter_trace P cfg net url (str ''tinyurl'')
                  @ adapter_trace P cfg net url (str ''cuttly'')
                  @ adapter_trace P cfg net url (str ''gplinks'')
                  @ Tg (EditMessageText
                          ([0xF8FF, 0xFC, 0xEE, 0xF3] @ str '' **Shortened URLs**'' @ [10, 10]
                             @ (if truthy (adapter_result P cfg net url (str ''bitly''))
                                then [0x201A, 0xFA, 0xD6] @ str '' **Bitly**'' @ [10] @ str ''`''
                                       @ fmt P (adapter_result P cfg net url (str ''bitly''))
                                       @ str ''`'' @ [10, 10]
                                else [0x201A, 0xF9, 0xE5] @ str '' **Bitly** - Failed'' @ [10, 10])
                             @ (if truthy (adapter_result P cfg net url (str ''tinyurl''))
                                then [0x201A, 0xFA, 0xD6] @ str '' **TinyURL**'' @ [10] @ str ''`''
                                       @ fmt P (adapter_result P cfg net url (str ''tinyurl''))
                                       @ str ''`'' @ [10, 10]
                                else [0x201A, 0xF9, 0xE5] @ str '' **TinyURL** - Failed'' @ [10, 10])
                             @ (if truthy (adapter_result P cfg net url (str ''cuttly''))
                                then [0x201A, 0xFA, 0xD6] @ str '' **Cuttly**'' @ [10] @ str ''`''
                                       @ fmt P (adapter_result P cfg net url (str ''cuttly''))
                                       @ str ''`'' @ [10, 10]
                                else [0x201A, 0xF9, 0xE5] @ str '' **Cuttly** - Failed'' @ [10, 10])
                             @ (if truthy (adapter_result P cfg net url (str ''gplinks''))
                                then [0x201A, 0xFA, 0xD6] @ str '' **GPLinks**'' @ [10] @ str ''`''
                                       @ fmt P (adapter_result P cfg net url (str ''gplinks''))
                                       @ str ''` '' @ [0xF8FF, 0xFC, 0xED, 0x221E] @ [10, 10]
                                else [0x201A, 0xF9, 0xE5] @ str '' **GPLinks** - Failed'' @ [10, 10])
                             @ [0x201A, 0xFA, 0xD6] @ str '' **''
                             @ [48 + successes P cfg net url] @ str ''/4 successful**'')
                          True (Some (str ''Markdown''))) # rest)"
    using msg unfolding header trailer bitly tinyurl cuttly gplinks markdown_def
    by (simp only: append_assoc)
  have logs: "list_all (\<lambda>key. \<exists>tl. adapter_trace P cfg net url key
                     = LogInfo (str ''Shortening URL with '' @ key @ str '': '' @ url) # tl)
           service_keys"
    using shorten_url_logs [OF assms(1)] by (simp add: list_all_iff)
  from assms(2) have pos: "1 \<le> successes P cfg net url"
    by (simp add: successes_pos)
  have f: "\<forall>s. fmt P (JStr s) = s"
    by (simp add: fmt_JStr)
  from keys lit f logs pos successes_le show ?thesis
    by blast
qed

lemma demo_valid: "is_valid_url ascii_runtime (str ''http://a.co'')"
  by code_simp

theorem all_services_aggregate_witness:
  "is_valid_url ascii_runtime (str ''http://a.co'') \<and>
   list_ex (\<lambda>key. truthy (adapter_result ascii_runtime demo_cfg demo_net (str ''http://a.co'') key))
     service_keys \<and>
   successes ascii_runtime demo_cfg demo_net (str ''http://a.co'') = 2 \<and>
   (\<exists>r rest. send_all_shortened_urls ascii_runtime demo_cfg demo_net (\<lambda>c. None) (str ''http://a.co'') =
      (r, adapter_trace ascii_runtime demo_cfg demo_net (str ''http://a.co'') (str ''bitly'')
            @ adapter_trace ascii_runtime demo_cfg demo_net (str ''http://a.co'') (str ''tinyurl'')
            @ adapter_trace ascii_runtime demo_cfg demo_net (str ''http://a.co'') (str ''cuttly'')
            @ adapter_trace ascii_runtime demo_cfg demo_net (str ''http://a.co'') (str ''gplinks'')
            @ Tg (EditMessageText
                    ([0xF8FF, 0xFC, 0xEE, 0xF3] @ str '' **Shortened URLs**'' @ [10, 10]
                       @ [0x201A, 0xFA, 0xD6] @ str '' **Bitly**'' @ [10]
                       @ str ''`https://bit.ly/x`'' @ [10, 10]
                       @ [0x201A, 0xFA, 0xD6] @ str '' **TinyURL**'' @ [10]
                       @ str ''`https://tinyurl.com/abc123`'' @ [10, 10]
                       @ [0x201A, 0xF9, 0xE5] @ str '' **Cuttly** - Failed'' @ [10, 10]
                       @ [0x201A, 0xF9, 0xE5] @ str '' **GPLinks** - Failed'' @ [10, 10]
                       @ [0x201A, 0xFA, 0xD6] @ str '' **2/4 successful**'')
                    True (Some (str ''Markdown''))) # rest))"
proof -
  have some: "list_ex (\<lambda>key. truthy (adapter_result ascii_runtime demo_cfg demo_net (str ''http://a.co'') key))
     service_keys"
    by code_simp
  have two: "successes ascii_runtime demo_cfg demo_net (str ''http://a.co'') = 2"
    by code_simp
  have b: "adapter_result ascii_runtime demo_cfg demo_net (str ''http://a.co'') (str ''bitly'')
             = JStr (str ''https://bit.ly/x'')"
    by code_simp
  have t: "adapter_result ascii_runtime demo_cfg demo_net (str ''http://a.co'') (str ''tinyurl'')
             = JStr (str ''https://tinyurl.com/abc123'')"
    by code_simp
  have c: "adapter_result ascii_runtime demo_cfg demo_net (str ''http://a.co'') (str ''cuttly'')
             = JNull"
    by code_simp
  have g: "adapter_result ascii_runtime demo_cfg demo_net (str ''http://a.co'') (str ''gplinks'')
             = JNull"
    by code_simp
  from all_services_aggregate [OF demo_valid some, of "\<lambda>c. None"] demo_valid some two
  show ?thesis
    unfolding b t c g two by (simp add: fmt_def str_def)
qed

text \<open>A text that contains another has all its characters.\<close>

lemma startswith_set: "startswith s p \<Longrightarrow> set p \<subseteq> set s"
  by (metis startswith_def set_take_subset)

lemma contains_set: "contains s p \<Longrightarrow> set p \<subseteq> set s"
proof (induction s)
  case Nil
  then show ?case by simp
next
  case (Cons a s)
  from Cons.prems have "startswith (a # s) p \<or> contains s p"
    by simp
  then show ?case
    using startswith_set [of "a # s" p] Cons.IH by auto
qed

lemma all_failed_no_star: "42 \<notin> set all_failed"
  by (simp add: all_failed_def mark_cross_def str_def)

text \<open>
  C4.  When every one of the four adapters returns no result, the message that
  \<open>send_all_shortened_urls\<close> sends is the blanket failure notice alone: it contains no
  failure entry and no success entry of any service, and no success count.
\<close>

theorem all_failed_blanket:
  assumes "list_all (\<lambda>key. \<not> truthy (adapter_result P cfg net url key)) service_keys"
  shows "(\<exists>r rest. send_all_shortened_urls P cfg net tg url =
            (r, adapter_trace P cfg net url (str ''bitly'')
                  @ adapter_trace P cfg net url (str ''tinyurl'')
                  @ adapter_trace P cfg net url (str ''cuttly'')
                  @ adapter_trace P cfg net url (str ''gplinks'')
                  @ Tg (EditMessageText all_failed True markdown) # rest)) \<and>
         all_failed = mark_cross @ str '' All services failed. Please try again later.'' \<and>
         (\<forall>service_name. \<not> contains all_failed (failure_entry service_name)) \<and>
         (\<forall>key service_name v. \<not> contains all_failed (success_entry P key service_name v)) \<and>
         (\<forall>k. \<not> contains all_failed (success_count k))"
proof -
  from assms have none: "\<not> list_ex (\<lambda>key. truthy (adapter_result P cfg net url key)) service_keys"
    by (simp add: list_all_iff list_ex_iff)
  from send_all_eq [of P cfg net tg url] none
  have msg: "\<exists>r rest. send_all_shortened_urls P cfg net tg url =
            (r, adapter_trace P cfg net url (str ''bitly'')
                  @ adapter_trace P cfg net url (str ''tinyurl'')
                  @ adapter_trace P cfg net url (str ''cuttly'')
                  @ adapter_trace P cfg net url (str ''gplinks'')
                  @ Tg (EditMessageText all_failed True markdown) # rest)"
    by (simp add: service_keys_def)
  have f: "\<not> contains all_failed (failure_entry service_name)" for service_name
  proof
    assume "contains all_failed (failure_entry service_name)"
    then have "set (failure_entry service_name) \<subseteq> set all_failed"
      by (rule contains_set)
    moreover have "42 \<in> set (failure_entry service_name)"
      by (simp add: failure_entry_def str_def)
    ultimately show False
      using all_failed_no_star by blast
  qed
  have s: "\<not> contains all_failed (success_entry P key service_name v)" for key service_name v
  proof
    assume "contains all_failed (success_entry P key service_name v)"
    then have "set (success_entry P key service_name v) \<subseteq> set all_failed"
      by (rule contains_set)
    moreover have "42 \<in> set (success_entry P key service_name v)"
      by (simp add: success_entry_def str_def)
    ultimately show False
      using all_failed_no_star by blast
  qed
  have c: "\<not> contains all_failed (success_count k)" for k
  proof
    assume "contains all_failed (success_count k)"
    then have "set (success_count k) \<subseteq> set all_failed"
      by (rule contains_set)
    moreover have "42 \<in> set (success_count k)"
      by (simp add: success_count_def str_def)
    ultimately show False
      using all_failed_no_star by blast
  qed
  from msg f s c show ?thesis
    by (simp add: all_failed_def)
qed

theorem all_failed_blanket_witness:
  "is_valid_url ascii_runtime (str ''http://a.co'') \<and>
   list_all (\<lambda>key. \<not> truthy (adapter_result ascii_runtime demo_cfg down_net (str ''http://a.co'') key))
     service_keys \<and>
   (\<exists>r rest. send_all_shortened_urls ascii_runtime demo_cfg down_net (\<lambda>c. None) (str ''http://a.co'') =
      (r, adapter_trace ascii_runtime demo_cfg down_net (str ''http://a.co'') (str ''bitly'')
            @ adapter_trace ascii_runtime demo_cfg down_net (str ''http://a.co'') (str ''tinyurl'')
            @ adapter_trace ascii_runtime demo_cfg down_net (str ''http://a.co'') (str ''cuttly'')
            @ adapter_trace ascii_runtime demo_cfg down_net (str ''http://a.co'') (str ''gplinks'')
            @ Tg (EditMessageText all_failed True markdown) # rest))"
proof -
  have none: "list_all (\<lambda>key. \<not> truthy (adapter_result ascii_runtime demo_cfg down_net (str ''http://a.co'') key))
     service_keys"
    by code_simp
  from all_failed_blanket [OF none, of "\<lambda>c. None"] demo_valid none
  show ?thesis
    by simp
qed

section \<open>Calls to the chat platform\<close>

lemma quiet_bind: "quiet m \<Longrightarrow> (\<And>x. quiet (f x)) \<Longrightarrow> quiet (bind m f)"
  by (auto simp: quiet_def bind_def split: prod.splits sum.splits) (metis snd_conv)
lemma quiet_catch: "quiet m \<Longrightarrow> (\<And>e. quiet (h e)) \<Longrightarrow> quiet (catch m h)"
  by (auto simp: quiet_def catch_def split: prod.splits sum.splits) (metis snd_conv)
lemma quiet_catch_ValueError: "quiet m \<Longrightarrow> quiet h \<Longrightarrow> quiet (catch_ValueError m h)"
  by (auto simp: quiet_def catch_ValueError_def split: prod.splits sum.splits exn.splits)

lemma quiet_ret [simp]: "quiet (ret x)" by (simp add: quiet_def ret_def)
lemma quiet_raise [simp]: "quiet (raise e)" by (simp add: quiet_def raise_def)
lemma quiet_lift [simp]: "quiet (lift r)" by (simp add: quiet_def lift_def)
lemma quiet_http [simp]: "quiet (http net rq)" by (simp add: quiet_def http_def)
lemma quiet_emit [simp]: "quiet (emit ev) = (\<not> is_tg ev)" by (simp add: quiet_def emit_def)

lemmas quiet_intros = quiet_bind quiet_catch quiet_catch_ValueError

lemma quiet_gplinks_read_get: "quiet (gplinks_read_get P response)"
  unfolding gplinks_read_get_def Let_def
  by (intro quiet_intros | simp split: list.splits | intro conjI impI allI)+

lemma quiet_shorten_url_try: "quiet (shorten_url_try P cfg net url service)"
  unfolding shorten_url_try_def Let_def
  by (intro quiet_intros quiet_gplinks_read_get | simp split: option.splits | intro conjI impI allI)+

lemma quiet_shorten_url: "quiet (shorten_url P cfg net url service)"
  unfolding shorten_url_def
  by (intro quiet_intros quiet_shorten_url_try | simp)+

lemma quiet_avoids: "quiet m \<Longrightarrow> avoids c m"
  by (auto simp: quiet_def avoids_def list_all_iff)

lemma avoids_bind: "avoids c m \<Longrightarrow> (\<And>x. avoids c (f x)) \<Longrightarrow> avoids c (bind m f)"
  by (auto simp: avoids_def bind_def split: prod.splits sum.splits) (metis snd_conv)

lemma avoids_catch: "avoids c m \<Longrightarrow> (\<And>e. avoids c (h e)) \<Longrightarrow> avoids c (catch m h)"
  by (auto simp: avoids_def catch_def split: prod.splits sum.splits) (metis snd_conv)

lemma avoids_tgdo [simp]: "avoids c (tgdo tg c') = (c \<noteq> c')"
  by (auto simp: avoids_def tgdo_def)

lemma avoids_emit [simp]: "avoids c (emit (LogError t e))"
  by (simp add: avoids_def emit_def)

lemma avoids_ret [simp]: "avoids c (ret x)"
  by (simp add: avoids_def ret_def)

lemma quiet_all_loop: "quiet (all_loop P cfg net url svcs acc)"
proof (induction svcs arbitrary: acc)
  case Nil
  show ?case by simp
next
  case (Cons s svcs)
  obtain key info where s: "s = (key, info)" by (cases s)
  obtain message n where acc: "acc = (message, n)" by (cases acc)
  show ?case
    unfolding s acc all_loop.simps Let_def
    by (intro quiet_bind quiet_shorten_url Cons.IH)
qed

lemma not_found_single:
  "avoids not_found_call (send_single_shortened_url P cfg net tg url service)"
  unfolding send_single_shortened_url_def Let_def
  by (intro avoids_catch avoids_bind quiet_avoids [OF quiet_shorten_url])
     (simp_all add: not_found_call_def url_not_found_def failed_to_shorten_def str_def
        mark_cross_def)

lemma not_found_all:
  "avoids not_found_call (send_all_shortened_urls P cfg net tg url)"
  unfolding send_all_shortened_urls_def Let_def
  by (intro avoids_catch avoids_bind quiet_avoids [OF quiet_all_loop])
     (simp_all add: not_found_call_def url_not_found_def str_def mark_cross_def
        split: prod.splits)


section \<open>The callback handler\<close>

lemma takeWhile_sep: "sep \<notin> set xs \<Longrightarrow> takeWhile (\<lambda>c. c \<noteq> sep) (xs @ sep # ys) = xs"
  by (induction xs) auto

lemma dropWhile_sep: "sep \<notin> set xs \<Longrightarrow> dropWhile (\<lambda>c. c \<noteq> sep) (xs @ sep # ys) = sep # ys"
  by (induction xs) auto

lemma split_max_two:
  assumes "sep \<notin> set a" and "sep \<notin> set b"
  shows "split_max sep 2 (a @ sep # b @ sep # c) = [a, b, c]"
proof -
  have "split_max sep (Suc (Suc 0)) (a @ sep # b @ sep # c) = [a, b, c]"
    using assms by (simp add: takeWhile_sep dropWhile_sep)
  then show ?thesis
    by (simp add: numeral_2_eq_2)
qed

lemma split_callback:
  assumes "95 \<notin> set service_code"
  shows "split_max (of_char CHR ''_'') 2 (str ''s_'' @ service_code @ [95] @ url_id)
     = [str ''s'', service_code, url_id]"
proof -
  have "split_max 95 2 ([115] @ 95 # service_code @ 95 # url_id) = [[115], service_code, url_id]"
    by (rule split_max_two) (use assms in simp_all)
  then show ?thesis
    by (simp add: str_def)
qed

lemma handler_try_parsed:
  assumes "95 \<notin> set service_code"
  shows "button_handler_try P cfg net tg url_cache (Some (str ''s_'' @ service_code @ [95] @ url_id)) =
     bind (tgdo tg Answer) (\<lambda>_.
       if get_url url_cache url_id = [] then tgdo tg not_found_call
       else bind (tgdo tg (ReplyChatAction (str ''typing''))) (\<lambda>_.
              if (case map_of service_map service_code of None \<Rightarrow> service_code | Some v \<Rightarrow> v) = str ''all''
              then send_all_shortened_urls P cfg net tg (get_url url_cache url_id)
              else send_single_shortened_url P cfg net tg (get_url url_cache url_id)
                     (case map_of service_map service_code of None \<Rightarrow> service_code | Some v \<Rightarrow> v)))"
proof -
  have sw: "startswith (str ''s_'' @ service_code @ [95] @ url_id) (str ''s_'')"
    by (simp add: startswith_def str_def)
  show ?thesis
    unfolding button_handler_try_def
    by (simp only: option.case sw if_True split_callback [OF assms] list.case Let_def
        not_found_call_def)
qed

lemma handler_avoids:
  "c = not_found_call \<Longrightarrow> avoids c
     (bind (emit (LogError (str ''Error in button handler: '') e)) (\<lambda>_.
             catch
               (tgdo tg (EditMessageText
                          (mark_cross @ str '' An error occurred. Please try again.'')
                          False None))
               (\<lambda>_. tgdo tg (ReplyText
                               (mark_cross @ str '' An error occurred. Please try again.'')))))"
  by (intro avoids_catch avoids_bind)
     (simp_all add: not_found_call_def url_not_found_def str_def mark_cross_def)

text \<open>
  C10.  For an id that is not in the cache, \<open>get_url\<close> returns the empty string.  On a
  callback payload \<open>s_<code>_<id>\<close> (the code without an underscore) that the chat
  platform lets the handler acknowledge, \<open>button_handler\<close> sends the message
  \<open>URL not found\<close> exactly when \<open>get_url\<close> returns the empty string for the id.
\<close>

theorem lookup_miss:
  "(url_cache url_id = None \<longrightarrow> get_url url_cache url_id = []) \<and>
   not_found_call
     = EditMessageText (mark_cross @ str '' URL not found. Please try again.'') False None \<and>
   (95 \<notin> set service_code \<longrightarrow> tg Answer = None \<longrightarrow>
      (Tg not_found_call \<in> set (snd (button_handler P cfg net tg url_cache
                                       (Some (str ''s_'' @ service_code @ [95] @ url_id)))))
        = (get_url url_cache url_id = []))"
proof (intro conjI impI)
  assume "url_cache url_id = None"
  then show "get_url url_cache url_id = []"
    by (simp add: get_url_def)
next
  show "not_found_call
          = EditMessageText (mark_cross @ str '' URL not found. Please try again.'') False None"
    by (simp add: not_found_call_def url_not_found_def)
next
  assume code: "95 \<notin> set service_code" and answer: "tg Answer = None"
  let ?data = "Some (str ''s_'' @ service_code @ [95] @ url_id)"
  show "(Tg not_found_call \<in> set (snd (button_handler P cfg net tg url_cache ?data)))
          = (get_url url_cache url_id = [])"
  proof (cases "get_url url_cache url_id = []")
    case True
    have "button_handler_try P cfg net tg url_cache ?data
            = (fst (tgdo tg not_found_call), [Tg Answer, Tg not_found_call])"
      unfolding handler_try_parsed [OF code]
      by (simp add: True tgdo_def answer bind_Inr)
    then have "Tg not_found_call \<in> set (snd (button_handler P cfg net tg url_cache ?data))"
      by (simp add: button_handler_def catch_def split: sum.splits prod.splits)
    with True show ?thesis by simp
  next
    case False
    have dispatch: "avoids not_found_call
        (if service = str ''all''
         then send_all_shortened_urls P cfg net tg url
         else send_single_shortened_url P cfg net tg url service)" for service url
      by (simp add: not_found_all not_found_single)
    have body: "avoids not_found_call (button_handler_try P cfg net tg url_cache ?data)"
      unfolding handler_try_parsed [OF code] if_not_P [OF False]
      by (intro avoids_bind dispatch) (simp_all add: not_found_call_def)
    have "avoids not_found_call (button_handler P cfg net tg url_cache ?data)"
      unfolding button_handler_def
      by (rule avoids_catch [OF body handler_avoids [OF refl]])
    with False show ?thesis
      by (simp add: avoids_def)
  qed
qed

theorem lookup_miss_witness:
  "Map.empty (str ''deadbeef'') = (None :: ustr option) \<and> 95 \<notin> set (str ''gpl'') \<and>
   get_url Map.empty (str ''deadbeef'') = [] \<and>
   Tg not_found_call \<in> set (snd (button_handler ascii_runtime demo_cfg down_net (\<lambda>c. None) Map.empty
                                  (Some (str ''s_'' @ str ''gpl'' @ [95] @ str ''deadbeef''))))"
proof -
  have code: "95 \<notin> set (str ''gpl'')"
    by (simp add: str_def)
  from code lookup_miss [of Map.empty "str ''deadbeef''" "str ''gpl''" "\<lambda>c. None"
      ascii_runtime demo_cfg down_net]
  show ?thesis
    by simp
qed

section \<open>The result of an adapter\<close>





section \<open>The extraction strategies of \<open>gplinks\<close>\<close>

lemma service_is_gplinks:
  "str ''gplinks'' \<noteq> str ''bitly''" "str ''gplinks'' \<noteq> str ''tinyurl''"
  "str ''gplinks'' \<noteq> str ''cuttly''"
  by (simp_all add: str_def)

lemma py_get_field: "py_get (JObj kvs) k JNull = Inr (field kvs k)"
  by (simp add: field_def split: option.splits)

lemma py_get_other: "(\<And>kvs. v \<noteq> JObj kvs) \<Longrightarrow> py_get v k d = Inl AttributeError"
  by (cases v) auto

lemma read_json_obj:
  "read_json (JObj kvs) =
     (Inr (if field kvs (str ''status'') = JStr (str ''success'')
           then Some (py_or (field kvs (str ''shortenedUrl'')) (field kvs (str ''shorturl'')))
           else None), [])"
  unfolding read_json_def py_get_field
  by (simp add: py_or_def ret_def)

lemma read_json_other: "(\<And>kvs. v \<noteq> JObj kvs) \<Longrightarrow> read_json v = (Inl AttributeError, [])"
  unfolding read_json_def by (simp add: py_get_other)

lemma catch_ValueError_simps:
  "catch_ValueError (Inr x, tr) h = (Inr x, tr)"
  "catch_ValueError (Inl AttributeError, tr) h = (Inl AttributeError, tr)"
  "catch_ValueError (Inl ValueError, []) h = h"
  by (simp_all add: catch_ValueError_def split: prod.splits)

lemma gplinks_read_get_eq:
  "gplinks_read_get P r =
     (let t = strip P (text_of r) in
      if startswith t (str ''http'') then (Inr (Some (JStr t)), [])
      else (case json_of r of
              None \<Rightarrow>
                (Inr (if contains t (str ''http'')
                      then (case findall P False embedded_url_pattern t of
                              [] \<Rightarrow> None | u # _ \<Rightarrow> Some (JStr u))
                      else None), [])
            | Some v \<Rightarrow> read_json v))"
proof (cases "json_of r")
  case None
  then show ?thesis
    by (simp add: gplinks_read_get_def Let_def json_def catch_ValueError_simps ret_def
        split: list.splits)
next
  case (Some v)
  have "catch_ValueError (read_json v) h = read_json v" for h
    by (cases "\<exists>kvs. v = JObj kvs")
       (auto simp: read_json_obj read_json_other catch_ValueError_simps)
  then show ?thesis
    by (simp add: gplinks_read_get_def Let_def json_def Some read_json_def [symmetric] ret_def)
qed

lemma read_get_trace: "snd (gplinks_read_get P r) = []"
  by (cases "json_of r"; cases "\<exists>kvs. the (json_of r) = JObj kvs")
     (auto simp: gplinks_read_get_eq Let_def read_json_obj read_json_other)

lemma read_get_value:
  assumes "status_code r = 200"
  shows "(case fst (gplinks_read_get P r) of Inl e \<Rightarrow> Some JNull | Inr x \<Rightarrow> x)
           = gplinks_get_step P (Inr r)"
proof (cases "json_of r")
  case None
  then show ?thesis
    using assms by (simp add: gplinks_read_get_eq gplinks_get_step_def Let_def)
next
  case (Some v)
  show ?thesis
  proof (cases "\<exists>kvs. v = JObj kvs")
    case True
    then obtain kvs where "v = JObj kvs" by blast
    then show ?thesis
      using assms Some
      by (simp add: gplinks_read_get_eq gplinks_get_step_def Let_def read_json_obj)
  next
    case False
    then have "read_json v = (Inl AttributeError, [])"
      by (simp add: read_json_other)
    with False show ?thesis
      using assms Some
      by (cases v) (simp_all add: gplinks_read_get_eq gplinks_get_step_def Let_def)
  qed
qed


lemma requests_simps:
  "requests (LogInfo t # tr) = requests tr"
  "requests (LogError t e # tr) = requests tr"
  by simp_all

lemma gplinks_post_step_Inl [simp]: "gplinks_post_step P (Inl e) = JNull"
  by (simp add: gplinks_post_step_def)

lemma gplinks_post_eq:
  "bind (http net rq) (\<lambda>response.
                 if status_code response = 200 then
                   (let response_text = strip P (text_of response) in
                    if startswith response_text (str ''http'') then ret (JStr response_text)
                    else ret JNull)
                 else ret JNull)
     = (case net rq of Inl e \<Rightarrow> Inl e | Inr r \<Rightarrow> Inr (gplinks_post_step P (net rq)), [Http rq])"
  by (cases "net rq")
     (simp_all add: http_def bind_Inl bind_Inr ret_def gplinks_post_step_def Let_def)

lemma gplinks_try_eq:
  assumes "is_valid_url P url" and "GPLINKS_API cfg \<noteq> []"
  shows "\<exists>x. shorten_url_try P cfg net url (str ''gplinks'') =
      (x, LogInfo (str ''Shortening URL with gplinks: '' @ url)
            # Http (gplinks_get cfg url)
            # (if gplinks_get_step P (net (gplinks_get cfg url)) = None
               then [Http (gplinks_post cfg url)] else [])) \<and>
      (case x of Inl e \<Rightarrow> JNull | Inr v \<Rightarrow> v)
        = gplinks_outcome P (net (gplinks_get cfg url)) (net (gplinks_post cfg url))"
proof -
  let ?get = "gplinks_get cfg url" and ?post = "gplinks_post cfg url"
  let ?ev = "LogInfo (str ''Shortening URL with gplinks: '' @ url)"
  let ?k = "\<lambda>returned. case returned of
               Some v \<Rightarrow> ret v
             | None \<Rightarrow>
                 bind (http net ?post) (\<lambda>response.
                 if status_code response = 200 then
                   (let response_text = strip P (text_of response) in
                    if startswith response_text (str ''http'') then ret (JStr response_text)
                    else ret JNull)
                 else ret JNull)"
  let ?body = "bind (http net ?get) (\<lambda>response.
             bind (if status_code response = 200 then gplinks_read_get P response
                   else ret None) ?k)"
  have shape: "shorten_url_try P cfg net url (str ''gplinks'') = (fst ?body, ?ev # snd ?body)"
    using assms
    by (simp add: shorten_url_try_def service_is_gplinks bind_emit) (simp add: str_def)
  have body: "\<exists>x. ?body = (x, Http ?get # (if gplinks_get_step P (net ?get) = None
               then [Http ?post] else [])) \<and>
      (case x of Inl e \<Rightarrow> JNull | Inr v \<Rightarrow> v) = gplinks_outcome P (net ?get) (net ?post)"
  proof (cases "net ?get")
    case (Inl e)
    then show ?thesis
      by (simp add: http_def bind_Inl gplinks_get_step_def gplinks_outcome_def)
  next
    case (Inr r)
    then have hg: "http net ?get = (Inr r, [Http ?get])"
      by (simp add: http_def)
    show ?thesis
    proof (cases "status_code r = 200")
      case False
      then show ?thesis
        using Inr
        by (simp add: hg bind_Inr gplinks_post_eq gplinks_get_step_def gplinks_outcome_def
            split: sum.splits)
    next
      case True
      obtain y where y: "gplinks_read_get P r = (y, [])"
        using read_get_trace [of P r] by (cases "gplinks_read_get P r") simp
      from read_get_value [OF True, of P] y
      have step: "gplinks_get_step P (Inr r) = (case y of Inl e \<Rightarrow> Some JNull | Inr x \<Rightarrow> x)"
        by simp
      show ?thesis
      proof (cases y)
        case (Inl e)
        with step show ?thesis
          using Inr True y
          by (simp add: hg bind_Inr bind_Inl gplinks_outcome_def)
      next
        case (Inr ret_val)
        with step show ?thesis
          using \<open>net ?get = Inr r\<close> True y
          by (cases ret_val)
             (simp_all add: hg bind_Inr gplinks_post_eq gplinks_outcome_def ret_def
                split: sum.splits)
      qed
    qed
  qed
  then show ?thesis
    unfolding shape by (auto simp: prod_eq_iff)
qed


text \<open>
  C2 (as amended).  For a valid URL and a configured credential the \<open>gplinks\<close> adapter
  sends the GET request first.  A transport error of the GET ends the adapter with no
  result.  On status 200: a trimmed body that starts with \<open>http\<close> is returned whole;
  otherwise a body that is JSON is read as JSON only (an object with
  \<open>status == "success"\<close> gives \<open>shortenedUrl or shorturl\<close> as it is, and a JSON value
  that is no object ends the adapter with no result); only a body that is no JSON is
  searched for an embedded URL, and the first match is returned.  In every remaining case
  (another status, a JSON object whose status is not \<open>success\<close>, no URL found) the same
  parameters are sent as a form-encoded POST, and the trimmed body of a 200 answer is
  returned when it starts with \<open>http\<close>; otherwise there is no result.  The requests
  sent are the GET, followed by the POST exactly in those remaining cases.
\<close>

theorem gplinks_strategy_order:
  assumes "is_valid_url P url" and "GPLINKS_API cfg \<noteq> []"
  shows "adapter_result P cfg net url (str ''gplinks'')
           = gplinks_outcome P (net (gplinks_get cfg url)) (net (gplinks_post cfg url)) \<and>
         requests (adapter_trace P cfg net url (str ''gplinks''))
           = gplinks_get cfg url
               # (if gplinks_get_step P (net (gplinks_get cfg url)) = None
                  then [gplinks_post cfg url] else [])"
proof -
  from gplinks_try_eq [OF assms, of net] obtain x where
    body: "shorten_url_try P cfg net url (str ''gplinks'') =
      (x, LogInfo (str ''Shortening URL with gplinks: '' @ url)
            # Http (gplinks_get cfg url)
            # (if gplinks_get_step P (net (gplinks_get cfg url)) = None
               then [Http (gplinks_post cfg url)] else []))"
    and val: "(case x of Inl e \<Rightarrow> JNull | Inr v \<Rightarrow> v)
        = gplinks_outcome P (net (gplinks_get cfg url)) (net (gplinks_post cfg url))"
    by blast
  show ?thesis
    using val
    by (cases x)
       (simp_all add: adapter_result_def adapter_trace_def shorten_url_def body catch_def
          bind_emit ret_def)
qed

theorem gplinks_strategy_order_witness:
  "is_valid_url ascii_runtime (str ''http://a.co'') \<and> GPLINKS_API full_cfg \<noteq> [] \<and>
   adapter_result ascii_runtime full_cfg refusing_net (str ''http://a.co'') (str ''gplinks'')
     = gplinks_outcome ascii_runtime (refusing_net (gplinks_get full_cfg (str ''http://a.co'')))
         (refusing_net (gplinks_post full_cfg (str ''http://a.co''))) \<and>
   requests (adapter_trace ascii_runtime full_cfg refusing_net (str ''http://a.co'') (str ''gplinks''))
     = [gplinks_get full_cfg (str ''http://a.co''), gplinks_post full_cfg (str ''http://a.co'')]"
proof -
  have cred: "GPLINKS_API full_cfg \<noteq> []"
    by (simp add: full_cfg_def str_def)
  have step: "gplinks_get_step ascii_runtime (refusing_net (gplinks_get full_cfg (str ''http://a.co'')))
                = None"
    by code_simp
  from gplinks_strategy_order [OF demo_valid cred, of refusing_net] demo_valid cred step
  show ?thesis
    by simp
qed

text \<open>
  C2 as the specification states it fails: a 200 answer whose body is the JSON object
  \<open>{"status":"error","message":"see https://gplinks.in/member"}\<close>, followed by a
  refused POST.  The stated order would return the link embedded in the message; the
  adapter returns no result.
\<close>

theorem gplinks_claimed_order_counterexample:
  "is_valid_url ascii_runtime (str ''http://a.co'') \<and> GPLINKS_API full_cfg \<noteq> [] \<and>
   adapter_result ascii_runtime full_cfg refusing_net (str ''http://a.co'') (str ''gplinks'') = JNull \<and>
   gplinks_claimed ascii_runtime (refusing_net (gplinks_get full_cfg (str ''http://a.co'')))
       (refusing_net (gplinks_post full_cfg (str ''http://a.co'')))
     = JStr (str ''https://gplinks.in/member\"}'')"
proof -
  have cred: "GPLINKS_API full_cfg \<noteq> []"
    by (simp add: full_cfg_def str_def)
  have code: "adapter_result ascii_runtime full_cfg refusing_net (str ''http://a.co'') (str ''gplinks'')
                = JNull"
    by code_simp
  have claimed: "gplinks_claimed ascii_runtime (refusing_net (gplinks_get full_cfg (str ''http://a.co'')))
       (refusing_net (gplinks_post full_cfg (str ''http://a.co'')))
     = JStr (str ''https://gplinks.in/member\"}'')"
    by code_simp
  from demo_valid cred code claimed show ?thesis
    by simp
qed

section \<open>Failing closed\<close>


























section \<open>URL validation\<close>

lemma ends_iff: "((j, t) \<in> ends L (i, s)) = (\<exists>p. p \<in> L \<and> s = p @ t \<and> j = i + length p)"
  by (auto simp: ends_def)

lemma rep_ends:
  assumes f: "\<And>c. set (f c) = ends L c"
  shows "set (rep f lo n c) =
           ends {concat ws | ws. set ws \<subseteq> L \<and> lo \<le> length ws \<and> length ws \<le> n} c"
proof (induction n arbitrary: lo c)
  case 0
  show ?case
    by (cases c) (auto simp: ends_def)
next
  case (Suc n)
  obtain i s where c: "c = (i, s)" by (cases c)
  show ?case
  proof (intro set_eqI iffI)
    fix x assume "x \<in> set (rep f lo (Suc n) c)"
    then consider (stop) "lo = 0" "x = c"
      | (more) c' where "c' \<in> ends L c" "x \<in> set (rep f (lo - 1) n c')"
      by (auto simp: f split: if_splits)
    then show "x \<in> ends {concat ws | ws. set ws \<subseteq> L \<and> lo \<le> length ws \<and> length ws \<le> Suc n} c"
    proof cases
      case stop
      then show ?thesis
        by (auto simp: ends_def c intro!: exI [of _ "[]"])
    next
      case more
      from more(1) obtain p where p: "p \<in> L" "s = p @ snd c'" "fst c' = i + length p"
        by (cases c') (auto simp: c ends_iff)
      from more(2) obtain ws where ws: "set ws \<subseteq> L" "lo - 1 \<le> length ws" "length ws \<le> n"
        "snd c' = concat ws @ snd x" "fst x = fst c' + length (concat ws)"
        unfolding Suc.IH by (cases x; cases c') (auto simp: ends_iff)
      have "set (p # ws) \<subseteq> L \<and> lo \<le> length (p # ws) \<and> length (p # ws) \<le> Suc n
             \<and> s = concat (p # ws) @ snd x \<and> fst x = i + length (concat (p # ws))"
        using p ws by auto
      then show ?thesis
        unfolding c by (cases x) (auto simp: ends_iff simp del: concat.simps set_simps(2) intro!: exI [of _ "p # ws"])
    qed
  next
    fix x assume "x \<in> ends {concat ws | ws. set ws \<subseteq> L \<and> lo \<le> length ws \<and> length ws \<le> Suc n} c"
    then obtain ws where ws: "set ws \<subseteq> L" "lo \<le> length ws" "length ws \<le> Suc n"
      "s = concat ws @ snd x" "fst x = i + length (concat ws)"
      by (cases x) (auto simp: c ends_iff)
    show "x \<in> set (rep f lo (Suc n) c)"
    proof (cases ws)
      case Nil
      with ws show ?thesis
        by (cases x) (simp add: c)
    next
      case (Cons p ws')
      let ?c' = "(i + length p, concat ws' @ snd x)"
      from ws Cons have "?c' \<in> ends L c"
        by (auto simp: c ends_iff)
      moreover from ws Cons have "x \<in> set (rep f (lo - 1) n ?c')"
        unfolding Suc.IH by (cases x) (auto simp: ends_iff intro!: exI [of _ ws'])
      ultimately show ?thesis
        by (auto simp: f)
    qed
  qed
qed


lemma ends_singleton: "ends {[]} c = {c}"
  by (cases c) (auto simp: ends_def)

lemma ends_empty [simp]: "ends {} c = {}"
  by (simp add: ends_def)

lemma ends_Un: "ends (A \<union> B) c = ends A c \<union> ends B c"
  by (auto simp: ends_def)

lemma ends_seq:
  "ends {p @ q | p q. p \<in> A \<and> q \<in> B} c = (\<Union>c' \<in> ends A c. ends B c')"
proof (intro set_eqI iffI)
  fix x assume "x \<in> ends {p @ q | p q. p \<in> A \<and> q \<in> B} c"
  then obtain p q where pq: "p \<in> A" "q \<in> B" "snd c = (p @ q) @ snd x"
    "fst x = fst c + length (p @ q)"
    by (cases x) (auto simp: ends_def)
  let ?c' = "(fst c + length p, q @ snd x)"
  from pq have "?c' \<in> ends A c"
    by (auto simp: ends_def)
  moreover from pq have "x \<in> ends B ?c'"
    by (cases x) (auto simp: ends_def)
  ultimately show "x \<in> (\<Union>c' \<in> ends A c. ends B c')"
    by blast
next
  fix x assume "x \<in> (\<Union>c' \<in> ends A c. ends B c')"
  then obtain c' where c': "c' \<in> ends A c" "x \<in> ends B c'"
    by blast
  from c'(1) obtain p where p: "p \<in> A" "snd c = p @ snd c'" "fst c' = fst c + length p"
    by (cases c') (auto simp: ends_def)
  from c'(2) obtain q where q: "q \<in> B" "snd c' = q @ snd x" "fst x = fst c' + length q"
    by (cases x) (auto simp: ends_def)
  from p q have "snd c = (p @ q) @ snd x" "fst x = fst c + length (p @ q)"
    by simp_all
  with p(1) q(1) show "x \<in> ends {p @ q | p q. p \<in> A \<and> q \<in> B} c"
    unfolding ends_def by (cases x) (simp, blast)
qed

lemma concat_nonempty_length:
  "[] \<notin> set ws \<Longrightarrow> length ws \<le> length (concat ws)"
proof (induction ws)
  case Nil
  show ?case by simp
next
  case (Cons w ws)
  then have "1 \<le> length w" "length ws \<le> length (concat ws)"
    by (auto simp: Suc_le_eq)
  then show ?case
    by simp
qed

lemma ends_char:
  "ends {[ch] | ch. Q ch} (i, s) =
     (case s of [] \<Rightarrow> {} | ch # t \<Rightarrow> if Q ch then {(Suc i, t)} else {})"
  by (cases s) (auto simp: ends_def)

lemma rmatch_ends:
  "plain P ic r \<Longrightarrow> set (rmatch P ic r c) = ends (lang P ic r) c"
proof (induction r arbitrary: c)
  case Bol
  then show ?case by simp
next
  case Eol
  then show ?case by simp
next
  case (In its)
  obtain i s where c: "c = (i, s)" by (cases c)
  show ?case
    unfolding c by (cases s) (simp_all add: ends_char)
next
  case (NotIn its)
  obtain i s where c: "c = (i, s)" by (cases c)
  show ?case
    unfolding c by (cases s) (simp_all add: ends_char)
next
  case Eps
  show ?case
    by (simp add: ends_singleton)
next
  case (Seq a b)
  then show ?case
    by (simp add: ends_seq)
next
  case (Alt a b)
  then show ?case
    by (simp add: ends_Un)
next
  case (Rep r lo hi)
  then have f: "\<And>c. set (rmatch P ic r c) = ends (lang P ic r) c"
    by simp
  obtain i s where c: "c = (i, s)" by (cases c)
  show ?case
  proof (cases hi)
    case (Some h)
    then show ?thesis
      by (simp add: rep_ends [OF f])
  next
    case None
    with Rep.prems have ne: "[] \<notin> lang P ic r"
      by simp
    have "ends {concat ws | ws. set ws \<subseteq> lang P ic r \<and> lo \<le> length ws \<and> length ws \<le> lo + length s} (i, s)
            = ends {concat ws | ws. set ws \<subseteq> lang P ic r \<and> lo \<le> length ws} (i, s)"
    proof (intro set_eqI iffI)
      fix x assume "x \<in> ends {concat ws | ws. set ws \<subseteq> lang P ic r \<and> lo \<le> length ws} (i, s)"
      then obtain ws where ws: "set ws \<subseteq> lang P ic r" "lo \<le> length ws"
        "s = concat ws @ snd x" "fst x = i + length (concat ws)"
        by (cases x) (auto simp: ends_iff)
      from ws(1) ne have "[] \<notin> set ws"
        by blast
      then have "length ws \<le> length (concat ws)"
        by (rule concat_nonempty_length)
      also have "\<dots> \<le> length s"
        by (simp add: ws(3))
      finally have "length ws \<le> lo + length s"
        by simp
      with ws show "x \<in> ends {concat ws | ws. set ws \<subseteq> lang P ic r \<and> lo \<le> length ws \<and> length ws \<le> lo + length s} (i, s)"
        by (cases x) (auto simp: ends_iff)
    qed (auto simp: ends_def)
    then show ?thesis
      by (simp add: rep_ends [OF f] None c)
  qed
qed

lemma concat_map_concat_map:
  "concat (map (\<lambda>x. concat (map g (f x))) xs) = concat (map g (concat (map f xs)))"
  by (induction xs) auto

lemma rmatch_foldr_Seq:
  "rmatch P ic (foldr Seq rs k) c = concat (map (rmatch P ic k) (rmatch P ic (seqs rs) c))"
proof (induction rs arbitrary: c)
  case Nil
  show ?case by (simp add: seqs_def)
next
  case (Cons r rs)
  have step: "rmatch P ic (foldr Seq rs k)
                = (\<lambda>c'. concat (map (rmatch P ic k) (rmatch P ic (seqs rs) c')))"
    by (rule ext) (rule Cons.IH)
  have "rmatch P ic (foldr Seq (r # rs) k) c
          = concat (map (\<lambda>c'. concat (map (rmatch P ic k) (rmatch P ic (seqs rs) c'))) (rmatch P ic r c))"
    by (simp add: step)
  also have "\<dots> = concat (map (rmatch P ic k) (concat (map (rmatch P ic (seqs rs)) (rmatch P ic r c))))"
    by (rule concat_map_concat_map)
  finally show ?case
    by (simp add: seqs_def)
qed

lemma concat_map_nonempty: "(concat (map f xs) \<noteq> []) = (\<exists>x \<in> set xs. f x \<noteq> [])"
  by (induction xs) auto

lemma rmatch_Eol: "(rmatch P ic (Seq Eol Eps) c \<noteq> []) = (snd c = [] \<or> snd c = [10])"
  by (cases c) simp

lemma url_pattern_body: "url_pattern = Seq Bol (foldr Seq url_body (Seq Eol Eps))"
  by (simp add: url_pattern_def url_body_def seqs_def)

lemma anchored_match:
  assumes "plain P ic (seqs rs)"
  shows "(rmatch P ic (Seq Bol (foldr Seq rs (Seq Eol Eps))) (0, s) \<noteq> []) =
           (\<exists>p e. p \<in> lang P ic (seqs rs) \<and> (e = [] \<or> e = [10]) \<and> s = p @ e)"
proof -
  have "(rmatch P ic (Seq Bol (foldr Seq rs (Seq Eol Eps))) (0, s) \<noteq> []) =
          (\<exists>c \<in> set (rmatch P ic (seqs rs) (0, s)). snd c = [] \<or> snd c = [10])"
  proof -
    have "rmatch P ic (Seq Bol (foldr Seq rs (Seq Eol Eps))) (0, s)
            = rmatch P ic (foldr Seq rs (Seq Eol Eps)) (0, s)"
      by simp
    then show ?thesis
      by (simp only: rmatch_foldr_Seq concat_map_nonempty rmatch_Eol)
  qed
  also have "\<dots> = (\<exists>c \<in> ends (lang P ic (seqs rs)) (0, s). snd c = [] \<or> snd c = [10])"
    by (simp add: rmatch_ends [OF assms])
  also have "\<dots> = (\<exists>p e. p \<in> lang P ic (seqs rs) \<and> (e = [] \<or> e = [10]) \<and> s = p @ e)"
    by (auto simp: ends_def)
  finally show ?thesis .
qed

lemma in_lang_Seq:
  "(w \<in> lang P ic (Seq a b)) = (\<exists>p q. w = p @ q \<and> p \<in> lang P ic a \<and> q \<in> lang P ic b)"
  by auto

lemma in_lang_Eps: "(w \<in> lang P ic Eps) = (w = [])"
  by simp

lemma in_lang_Alt: "(w \<in> lang P ic (Alt a b)) = (w \<in> lang P ic a \<or> w \<in> lang P ic b)"
  by simp

lemma in_lang_In: "(w \<in> lang P ic (In its)) = (\<exists>ch. w = [ch] \<and> in_set P ic its ch)"
  by auto

lemma in_lang_Opt: "(w \<in> lang P ic (Opt r)) = (w = [] \<or> w \<in> lang P ic r)"
proof
  assume "w \<in> lang P ic (Opt r)"
  then obtain ws where ws: "set ws \<subseteq> lang P ic r" "length ws \<le> 1" "w = concat ws"
    by (auto simp: Opt_def)
  then show "w = [] \<or> w \<in> lang P ic r"
    by (cases ws) auto
next
  assume "w = [] \<or> w \<in> lang P ic r"
  then show "w \<in> lang P ic (Opt r)"
  proof
    assume "w = []"
    then show ?thesis
      by (auto simp: Opt_def intro!: exI [of _ "[]"])
  next
    assume "w \<in> lang P ic r"
    then show ?thesis
      by (auto simp: Opt_def intro!: exI [of _ "[w]"])
  qed
qed

lemma concat_singletons:
  "(\<exists>ws. w = concat ws \<and> set ws \<subseteq> {[ch] | ch. Q ch} \<and> R (length ws)) = (list_all Q w \<and> R (length w))"
proof
  assume "\<exists>ws. w = concat ws \<and> set ws \<subseteq> {[ch] | ch. Q ch} \<and> R (length ws)"
  then obtain ws where ws: "w = concat ws" "set ws \<subseteq> {[ch] | ch. Q ch}" "R (length ws)"
    by blast
  from ws(2) have "list_all Q (concat ws) \<and> length (concat ws) = length ws"
    by (induction ws) auto
  with ws show "list_all Q w \<and> R (length w)"
    by simp
next
  assume a: "list_all Q w \<and> R (length w)"
  let ?ws = "map (\<lambda>ch. [ch]) w"
  have "w = concat ?ws"
    by (induction w) auto
  moreover from a have "set ?ws \<subseteq> {[ch] | ch. Q ch}"
    by (auto simp: list_all_iff)
  moreover from a have "R (length ?ws)"
    by simp
  ultimately show "\<exists>ws. w = concat ws \<and> set ws \<subseteq> {[ch] | ch. Q ch} \<and> R (length ws)"
    by blast
qed

lemma in_lang_Rep_In:
  "(w \<in> lang P ic (Rep (In its) lo hi)) =
     (list_all (in_set P ic its) w \<and> lo \<le> length w \<and>
      (case hi of None \<Rightarrow> True | Some h \<Rightarrow> length w \<le> h))"
  using concat_singletons [of w "in_set P ic its"
      "\<lambda>n. lo \<le> n \<and> (case hi of None \<Rightarrow> True | Some h \<Rightarrow> n \<le> h)"]
  by auto

lemma in_lang_Rep_NotIn:
  "(w \<in> lang P ic (Rep (NotIn its) lo hi)) =
     (list_all (\<lambda>ch. \<not> in_set P ic its ch) w \<and> lo \<le> length w \<and>
      (case hi of None \<Rightarrow> True | Some h \<Rightarrow> length w \<le> h))"
  using concat_singletons [of w "\<lambda>ch. \<not> in_set P ic its ch"
      "\<lambda>n. lo \<le> n \<and> (case hi of None \<Rightarrow> True | Some h \<Rightarrow> n \<le> h)"]
  by auto

lemma in_lang_Plus:
  "(w \<in> lang P ic (Plus r)) = (\<exists>ws. ws \<noteq> [] \<and> set ws \<subseteq> lang P ic r \<and> w = concat ws)"
  by (auto simp: Plus_def Suc_le_eq)

lemma in_lang_Seq_In:
  "(w \<in> lang P ic (Seq (In its) b)) = (\<exists>ch q. w = ch # q \<and> in_set P ic its ch \<and> q \<in> lang P ic b)"
proof
  assume "w \<in> lang P ic (Seq (In its) b)"
  then show "\<exists>ch q. w = ch # q \<and> in_set P ic its ch \<and> q \<in> lang P ic b"
    by auto
next
  assume "\<exists>ch q. w = ch # q \<and> in_set P ic its ch \<and> q \<in> lang P ic b"
  then obtain ch q where "w = [ch] @ q" "in_set P ic its ch" "q \<in> lang P ic b"
    by auto
  then show "w \<in> lang P ic (Seq (In its) b)"
    unfolding in_lang_Seq in_lang_In by blast
qed

lemma in_lang_lits:
  "(w \<in> lang P True (lits s)) = ci_text P s w"
proof (induction s arbitrary: w)
  case Nil
  show ?case by (simp add: lits_def ci_text_def)
next
  case (Cons c s)
  have "lits (c # s) = Seq (In [Lit (of_char c)]) (lits s)"
    by (simp add: lits_def)
  then show ?case
    by (simp add: in_lang_Seq_In Cons.IH ci_text_def list_all2_Cons1 del: lang.simps)
qed

lemma ci_text_append:
  "ci_text P (s @ s') w = (\<exists>u v. w = u @ v \<and> ci_text P s u \<and> ci_text P s' v)"
  by (auto simp: ci_text_def list_all2_append1) (metis list_all2_lengthD)

lemma ci_text_Nil [simp]: "ci_text P [] w = (w = [])"
  by (simp add: ci_text_def)

lemma in_set_digit: "in_set P ic [CatDigit] ch = isdecimal P ch"
  by (simp add: in_set_def)

lemma in_set_space: "in_set P ic [CatSpace] ch = isspace P ch"
  by (simp add: in_set_def)

lemma in_lang_seqs_Nil: "(w \<in> lang P ic (seqs [])) = (w = [])"
  by (simp add: seqs_def)

lemma in_lang_seqs_Cons:
  "(w \<in> lang P ic (seqs (r # rs))) =
     (\<exists>p q. w = p @ q \<and> p \<in> lang P ic r \<and> q \<in> lang P ic (seqs rs))"
  by (simp add: seqs_def)

lemma in_lang_NotIn: "(w \<in> lang P ic (NotIn its)) = (\<exists>ch. w = [ch] \<and> \<not> in_set P ic its ch)"
  by auto

lemmas in_lang = in_lang_seqs_Nil in_lang_seqs_Cons in_lang_Alt in_lang_Opt in_lang_In
  in_lang_Rep_In in_lang_Rep_NotIn in_lang_Plus in_lang_lits in_set_digit in_set_space

lemma plain_lits [simp]: "plain P ic (lits s)"
  by (induction s) (simp_all add: lits_def)

lemma plain_seqs_Cons [simp]: "plain P ic (seqs (r # rs)) = (plain P ic r \<and> plain P ic (seqs rs))"
  by (simp add: seqs_def)

lemma plain_seqs_Nil [simp]: "plain P ic (seqs [])"
  by (simp add: seqs_def)

lemma plain_Opt [simp]: "plain P ic (Opt r) = plain P ic r"
  by (simp add: Opt_def)

lemma plain_Plus [simp]: "plain P ic (Plus r) = (plain P ic r \<and> [] \<notin> lang P ic r)"
  by (simp add: Plus_def)

lemma plain_url_body: "plain P True (seqs url_body)"
  by (simp add: url_body_def rx_domain_def rx_ip_def in_lang_seqs_Cons in_lang_In
      in_lang_NotIn del: lang.simps)

lemma mem_scheme:
  "(\<exists>a b c. w = a @ b @ c \<and> a \<in> lang P True (lits ''http'') \<and> b \<in> lang P True (Opt (lits ''s''))
      \<and> c \<in> lang P True (lits ''://'')) = scheme P w"
proof -
  have h: "''http://'' = ''http'' @ ''://''" and hs: "''https://'' = ''http'' @ ''s'' @ ''://''"
    by simp_all
  show ?thesis
    unfolding scheme_def h hs ci_text_append in_lang_Opt in_lang_lits
    apply (intro iffI)
     apply (elim exE conjE disjE)
      apply (rule disjI1)
      apply simp
      apply blast
     apply (rule disjI2)
     apply blast
    apply (elim exE conjE disjE)
     apply (rule_tac x = u in exI, rule_tac x = "[]" in exI, rule_tac x = v in exI)
     apply simp
    apply blast
    done
qed

lemma class_eta:
  "in_set P True alnum = is_alnum P"
  "in_set P True alnum_hyphen = is_alnum_hyphen P"
  "in_set P True letter = is_letter P"
  by (rule ext, simp add: is_alnum_def is_alnum_hyphen_def is_letter_def)+

lemma in_lang_single: "(w \<in> lang P ic (seqs [r])) = (w \<in> lang P ic r)"
  by (simp add: seqs_def)

lemma in_lang_Rep_In_Some:
  "(w \<in> lang P ic (Rep (In its) lo (Some h))) =
     (list_all (in_set P ic its) w \<and> lo \<le> length w \<and> length w \<le> h)"
  by (simp add: in_lang_Rep_In del: lang.simps)

lemma in_lang_Plus_In:
  "(w \<in> lang P ic (Plus (In its))) = (list_all (in_set P ic its) w \<and> w \<noteq> [])"
  by (cases w) (simp_all add: Plus_def in_lang_Rep_In del: lang.simps)

lemma in_lang_Plus_NotIn:
  "(w \<in> lang P ic (Plus (NotIn its))) = (list_all (\<lambda>ch. \<not> in_set P ic its ch) w \<and> w \<noteq> [])"
  by (cases w) (simp_all add: Plus_def in_lang_Rep_NotIn del: lang.simps)

lemma in_lang_In_eta: "(w \<in> lang P ic (In its)) = (\<exists>ch. w = [ch] \<and> in_set P ic its ch)"
  by auto

text \<open>The optional inner part of a label.\<close>

lemma mem_label_rest:
  "(x \<in> lang P True (Opt (seqs [Rep (In alnum_hyphen) 0 (Some 61), In alnum]))) =
     (x = [] \<or> (\<exists>mid b. x = mid @ [b] \<and> list_all (is_alnum_hyphen P) mid \<and>
               length mid \<le> 61 \<and> is_alnum P b))"
  unfolding in_lang_Opt in_lang_seqs_Cons in_lang_seqs_Nil in_lang_Rep_In_Some in_lang_In_eta
    class_eta
  by (simp add: is_alnum_def [symmetric]) blast

lemma mem_label:
  "(\<exists>a x. l = [a] @ x \<and> [a] \<in> lang P True (In alnum) \<and>
      x \<in> lang P True (Opt (seqs [Rep (In alnum_hyphen) 0 (Some 61), In alnum]))) = label P l"
  unfolding mem_label_rest label_def in_lang_In_eta
  by (simp add: is_alnum_def [symmetric]) blast


lemma seqs2:
  "(w \<in> lang P ic (seqs [a, b])) = (\<exists>x y. w = x @ y \<and> x \<in> lang P ic a \<and> y \<in> lang P ic b)"
  by (simp add: in_lang_seqs_Cons in_lang_seqs_Nil del: lang.simps)

lemma seqs3:
  "(w \<in> lang P ic (seqs [a, b, c])) =
     (\<exists>x y z. w = x @ y @ z \<and> x \<in> lang P ic a \<and> y \<in> lang P ic b \<and> z \<in> lang P ic c)"
  unfolding in_lang_seqs_Cons [of w] seqs2 by blast

lemma mem_label_group:
  "(w \<in> lang P True (seqs [In alnum,
                       Opt (seqs [Rep (In alnum_hyphen) 0 (Some 61), In alnum]),
                       lits ''.''])) = dotted_label P w"
proof
  assume "w \<in> lang P True (seqs [In alnum,
                       Opt (seqs [Rep (In alnum_hyphen) 0 (Some 61), In alnum]),
                       lits ''.''])"
  then obtain u x d where w: "w = u @ x @ d" and u: "u \<in> lang P True (In alnum)"
    and x: "x \<in> lang P True (Opt (seqs [Rep (In alnum_hyphen) 0 (Some 61), In alnum]))"
    and d: "ci_text P ''.'' d"
    unfolding seqs3 in_lang_lits by blast
  from u obtain a where a: "u = [a]"
    unfolding in_lang_In_eta by blast
  from u x a have "label P ([a] @ x)"
    unfolding mem_label [symmetric] by blast
  with d have "dotted_label P (([a] @ x) @ d)"
    unfolding dotted_label_def by blast
  then show "dotted_label P w"
    by (simp add: w a)
next
  assume "dotted_label P w"
  then obtain l d where l: "label P l" and d: "ci_text P ''.'' d" and w: "w = l @ d"
    unfolding dotted_label_def by blast
  from l obtain a x where lx: "l = [a] @ x" and a: "[a] \<in> lang P True (In alnum)"
    and x: "x \<in> lang P True (Opt (seqs [Rep (In alnum_hyphen) 0 (Some 61), In alnum]))"
    unfolding mem_label [symmetric] by blast
  have "w = [a] @ x @ d"
    by (simp add: w lx)
  with a x d show "w \<in> lang P True (seqs [In alnum,
                       Opt (seqs [Rep (In alnum_hyphen) 0 (Some 61), In alnum]),
                       lits ''.''])"
    unfolding seqs3 in_lang_lits by blast
qed

lemma mem_tld: "(t \<in> lang P True (Rep (In letter) 2 (Some 6))) = tld P t"
  unfolding in_lang_Rep_In_Some class_eta tld_def by blast

lemma mem_domain: "(h \<in> lang P True rx_domain) = dns_host P h"
proof
  assume "h \<in> lang P True rx_domain"
  then obtain g t e where h: "h = g @ t @ e"
    and g: "g \<in> lang P True (Plus (seqs [In alnum,
                       Opt (seqs [Rep (In alnum_hyphen) 0 (Some 61), In alnum]),
                       lits ''.'']))"
    and t: "tld P t" and e: "e = [] \<or> ci_text P ''.'' e"
    unfolding rx_domain_def seqs3 mem_tld in_lang_Opt in_lang_lits by blast
  from g obtain ls where ls: "ls \<noteq> []" "g = concat ls"
    and all: "set ls \<subseteq> lang P True (seqs [In alnum,
                       Opt (seqs [Rep (In alnum_hyphen) 0 (Some 61), In alnum]),
                       lits ''.''])"
    unfolding in_lang_Plus by blast
  from all have "list_all (dotted_label P) ls"
    unfolding list_all_iff using mem_label_group by blast
  with ls t e h show "dns_host P h"
    unfolding dns_host_def by blast
next
  assume "dns_host P h"
  then obtain ls t e where ls: "ls \<noteq> []" "list_all (dotted_label P) ls" and t: "tld P t"
    and e: "e = [] \<or> ci_text P ''.'' e" and h: "h = concat ls @ t @ e"
    unfolding dns_host_def by blast
  from ls(2) have "set ls \<subseteq> lang P True (seqs [In alnum,
                       Opt (seqs [Rep (In alnum_hyphen) 0 (Some 61), In alnum]),
                       lits ''.''])"
    unfolding list_all_iff using mem_label_group by blast
  with ls(1) have "concat ls \<in> lang P True (Plus (seqs [In alnum,
                       Opt (seqs [Rep (In alnum_hyphen) 0 (Some 61), In alnum]),
                       lits ''.'']))"
    unfolding in_lang_Plus by blast
  with t e h show "h \<in> lang P True rx_domain"
    unfolding rx_domain_def seqs3 mem_tld in_lang_Opt in_lang_lits by blast
qed

lemma digit_eta: "in_set P ic [CatDigit] = isdecimal P"
  by (rule ext) (simp add: in_set_def)

lemma space_eta: "(\<lambda>ch. \<not> in_set P ic [CatSpace] ch) = (\<lambda>ch. \<not> isspace P ch)"
  by (rule ext) (simp add: in_set_def)

lemma mem_octet: "(a \<in> lang P True (Rep (In [CatDigit]) 1 (Some 3))) = octet P a"
  unfolding in_lang_Rep_In_Some digit_eta octet_def by blast

lemma ex_last: "(\<exists>p q. w = p @ q \<and> Q p \<and> q = []) = Q w"
  by auto

lemma seqsE:
  assumes "w \<in> lang P ic (seqs (r # rs))"
  obtains p q where "w = p @ q" "p \<in> lang P ic r" "q \<in> lang P ic (seqs rs)"
  using assms unfolding in_lang_seqs_Cons by blast

lemma seqs_NilE:
  assumes "w \<in> lang P ic (seqs [])"
  obtains "w = []"
  using assms unfolding in_lang_seqs_Nil by blast

lemma seqsI: "p \<in> lang P ic r \<Longrightarrow> q \<in> lang P ic (seqs rs) \<Longrightarrow> p @ q \<in> lang P ic (seqs (r # rs))"
  unfolding in_lang_seqs_Cons by blast

lemma seqs_NilI: "[] \<in> lang P ic (seqs [])"
  unfolding in_lang_seqs_Nil by simp

lemma mem_ip: "(h \<in> lang P True rx_ip) = ipv4 P h"
proof
  assume "h \<in> lang P True rx_ip"
  then obtain a d1 b d2 c d3 d where "h = a @ d1 @ b @ d2 @ c @ d3 @ d @ []"
    and "a \<in> lang P True (Rep (In [CatDigit]) 1 (Some 3))" "d1 \<in> lang P True (lits ''.'')"
    and "b \<in> lang P True (Rep (In [CatDigit]) 1 (Some 3))" "d2 \<in> lang P True (lits ''.'')"
    and "c \<in> lang P True (Rep (In [CatDigit]) 1 (Some 3))" "d3 \<in> lang P True (lits ''.'')"
    and "d \<in> lang P True (Rep (In [CatDigit]) 1 (Some 3))"
    unfolding rx_ip_def by (elim seqsE seqs_NilE) simp
  then show "ipv4 P h"
    unfolding ipv4_def mem_octet in_lang_lits append_Nil2 by blast
next
  assume "ipv4 P h"
  then obtain a d1 b d2 c d3 d where h: "h = a @ d1 @ b @ d2 @ c @ d3 @ d @ []"
    and parts: "a \<in> lang P True (Rep (In [CatDigit]) 1 (Some 3))" "d1 \<in> lang P True (lits ''.'')"
      "b \<in> lang P True (Rep (In [CatDigit]) 1 (Some 3))" "d2 \<in> lang P True (lits ''.'')"
      "c \<in> lang P True (Rep (In [CatDigit]) 1 (Some 3))" "d3 \<in> lang P True (lits ''.'')"
      "d \<in> lang P True (Rep (In [CatDigit]) 1 (Some 3))"
    unfolding ipv4_def mem_octet in_lang_lits append_Nil2 by blast
  show "h \<in> lang P True rx_ip"
    unfolding rx_ip_def h by (intro seqsI seqs_NilI parts)
qed

lemma mem_port:
  "(p \<in> lang P True (Opt (seqs [lits '':'', Plus (In [CatDigit])]))) = port P p"
  unfolding in_lang_Opt seqs2 in_lang_lits in_lang_Plus_In digit_eta port_def by blast

lemma mem_path:
  "(q \<in> lang P True (Alt (Opt (lits ''/''))
          (seqs [In [Lit (of_char CHR ''/''), Lit (of_char CHR ''?'')],
                 Plus (NotIn [CatSpace])]))) = path_query P q"
proof -
  have "(q \<in> lang P True (Alt (Opt (lits ''/''))
          (seqs [In [Lit (of_char CHR ''/''), Lit (of_char CHR ''?'')],
                 Plus (NotIn [CatSpace])]))) =
     (q = [] \<or> ci_text P ''/'' q \<or>
      (\<exists>c rest. q = [c] @ rest \<and>
         in_set P True [Lit (of_char CHR ''/''), Lit (of_char CHR ''?'')] c \<and>
         list_all (\<lambda>ch. \<not> isspace P ch) rest \<and> rest \<noteq> []))"
    unfolding in_lang_Alt in_lang_Opt seqs2 in_lang_lits in_lang_Plus_NotIn in_lang_In_eta
      space_eta
    by blast
  also have "\<dots> = path_query P q"
    unfolding path_query_def by (simp only: append_Cons append_Nil) blast
  finally show ?thesis .
qed

lemma mem_host:
  "(h \<in> lang P True (Alt rx_domain (Alt (lits ''localhost'') rx_ip))) = host P h"
  unfolding in_lang_Alt mem_domain mem_ip in_lang_lits host_def ..

lemma mem_body:
  "(w \<in> lang P True (seqs url_body)) =
     (\<exists>sch h p q. scheme P sch \<and> host P h \<and> port P p \<and> path_query P q \<and> w = sch @ h @ p @ q)"
proof
  assume "w \<in> lang P True (seqs url_body)"
  then obtain a b c h p q where w: "w = a @ b @ c @ h @ p @ q @ []"
    and abc: "a \<in> lang P True (lits ''http'')" "b \<in> lang P True (Opt (lits ''s''))"
      "c \<in> lang P True (lits ''://'')"
    and h: "h \<in> lang P True (Alt rx_domain (Alt (lits ''localhost'') rx_ip))"
    and p: "p \<in> lang P True (Opt (seqs [lits '':'', Plus (In [CatDigit])]))"
    and q: "q \<in> lang P True (Alt (Opt (lits ''/''))
          (seqs [In [Lit (of_char CHR ''/''), Lit (of_char CHR ''?'')],
                 Plus (NotIn [CatSpace])]))"
    unfolding url_body_def by (elim seqsE seqs_NilE) simp
  from abc have "scheme P (a @ b @ c)"
    unfolding mem_scheme [symmetric] by blast
  moreover have "w = (a @ b @ c) @ h @ p @ q"
    by (simp add: w)
  ultimately show "\<exists>sch h p q. scheme P sch \<and> host P h \<and> port P p \<and> path_query P q \<and> w = sch @ h @ p @ q"
    using h p q unfolding mem_host mem_port mem_path by blast
next
  assume "\<exists>sch h p q. scheme P sch \<and> host P h \<and> port P p \<and> path_query P q \<and> w = sch @ h @ p @ q"
  then obtain sch h p q where sch: "scheme P sch"
    and h: "h \<in> lang P True (Alt rx_domain (Alt (lits ''localhost'') rx_ip))"
    and p: "p \<in> lang P True (Opt (seqs [lits '':'', Plus (In [CatDigit])]))"
    and q: "q \<in> lang P True (Alt (Opt (lits ''/''))
          (seqs [In [Lit (of_char CHR ''/''), Lit (of_char CHR ''?'')],
                 Plus (NotIn [CatSpace])]))"
    and w: "w = sch @ h @ p @ q"
    unfolding mem_host mem_port mem_path by blast
  from sch obtain a b c where abc: "sch = a @ b @ c" and a: "a \<in> lang P True (lits ''http'')"
    and b: "b \<in> lang P True (Opt (lits ''s''))" and c: "c \<in> lang P True (lits ''://'')"
    unfolding mem_scheme [symmetric] by blast
  have w': "w = a @ b @ c @ h @ p @ q @ []"
    by (simp add: w abc)
  show "w \<in> lang P True (seqs url_body)"
    unfolding url_body_def w' by (intro seqsI seqs_NilI a b c h p q)
qed

lemma is_valid_url_match: "is_valid_url P s = (rmatch P True url_pattern (0, s) \<noteq> [])"
  by (simp add: is_valid_url_def re_match_def split: list.splits)

lemma valid_iff_accepted: "is_valid_url P s = accepted P s"
proof -
  have "is_valid_url P s =
      (\<exists>w e. w \<in> lang P True (seqs url_body) \<and> (e = [] \<or> e = [10]) \<and> s = w @ e)"
    unfolding is_valid_url_match url_pattern_body
    by (rule anchored_match [OF plain_url_body])
  also have "\<dots> = accepted P s"
    unfolding mem_body accepted_def
  proof
    assume "\<exists>w e. (\<exists>sch h p q. scheme P sch \<and> host P h \<and> port P p \<and> path_query P q \<and>
        w = sch @ h @ p @ q) \<and> (e = [] \<or> e = [10]) \<and> s = w @ e"
    then obtain sch h p q e where "scheme P sch" "host P h" "port P p" "path_query P q"
      "e = [] \<or> e = [10]" "s = (sch @ h @ p @ q) @ e"
      by blast
    then show "\<exists>sch h p q e. scheme P sch \<and> host P h \<and> port P p \<and> path_query P q \<and>
        (e = [] \<or> e = [10]) \<and> s = sch @ h @ p @ q @ e"
      unfolding append_assoc by blast
  next
    assume "\<exists>sch h p q e. scheme P sch \<and> host P h \<and> port P p \<and> path_query P q \<and>
        (e = [] \<or> e = [10]) \<and> s = sch @ h @ p @ q @ e"
    then obtain sch h p q e where "scheme P sch" "host P h" "port P p" "path_query P q"
      "e = [] \<or> e = [10]" "s = (sch @ h @ p @ q) @ e"
      unfolding append_assoc by blast
    then show "\<exists>w e. (\<exists>sch h p q. scheme P sch \<and> host P h \<and> port P p \<and> path_query P q \<and>
        w = sch @ h @ p @ q) \<and> (e = [] \<or> e = [10]) \<and> s = w @ e"
      by blast
  qed
  finally show ?thesis .
qed

lemma ci_text_length: "ci_text P s w \<Longrightarrow> length w = length s"
  by (simp add: ci_text_def list_all2_lengthD)

lemma scheme_prefix:
  assumes "scheme P sch"
  shows "starts_with_scheme P (sch @ rest)"
proof -
  from assms have "length sch = 7 \<or> length sch = 8"
    unfolding scheme_def by (auto dest: ci_text_length)
  then have "take 7 (sch @ rest) = sch \<or> take 8 (sch @ rest) = sch"
    by auto
  with assms show ?thesis
    unfolding starts_with_scheme_def by metis
qed

lemma accepted_scheme: "accepted P s \<Longrightarrow> starts_with_scheme P s"
  unfolding accepted_def using scheme_prefix by blast

text \<open>
  C1 (as amended).  \<open>is_valid_url\<close> accepts exactly the strings made of: the scheme
  \<open>http://\<close> or \<open>https://\<close> in any letter case; a host, which is either one or more
  labels (letters, digits and inner hyphens, at most 63 characters) each followed by a
  dot, then a final label of 2 to 6 letters and possibly one more dot, or \<open>localhost\<close>
  in any letter case, or four groups of 1 to 3 decimal digits separated by dots; an
  optional port (a colon and one or more digits); an optional path or query (nothing, a
  slash, or a slash or question mark followed by one or more characters that are no
  white space); and possibly one final newline.  In particular it rejects every string
  that does not start with \<open>http://\<close> or \<open>https://\<close>, case ignored.
\<close>

theorem valid_url_shape:
  "(is_valid_url P s = accepted P s) \<and> (\<not> starts_with_scheme P s \<longrightarrow> \<not> is_valid_url P s)"
  using valid_iff_accepted [of P s] accepted_scheme [of P s] by blast

theorem valid_url_shape_witness:
  "\<not> starts_with_scheme ascii_runtime (str ''ftp://a.co'') \<and>
   \<not> is_valid_url ascii_runtime (str ''ftp://a.co'') \<and>
   is_valid_url ascii_runtime (str ''http://a.co'') \<and>
   accepted ascii_runtime (str ''http://a.co'')"
proof -
  have no: "\<not> starts_with_scheme ascii_runtime (str ''ftp://a.co'')"
    by code_simp
  from no valid_url_shape [of ascii_runtime "str ''ftp://a.co''"]
    valid_url_shape [of ascii_runtime "str ''http://a.co''"] demo_valid
  show ?thesis
    by blast
qed

text \<open>
  C1 as the specification states it fails: \<open>HTTP://a.co\<close> starts with neither
  \<open>http://\<close> nor \<open>https://\<close>, and \<open>is_valid_url\<close> accepts it, since the pattern is
  compiled with \<open>re.IGNORECASE\<close>.
\<close>

theorem literal_scheme_counterexample:
  "\<not> startswith (str ''HTTP://a.co'') (str ''http://'') \<and>
   \<not> startswith (str ''HTTP://a.co'') (str ''https://'') \<and>
   is_valid_url ascii_runtime (str ''HTTP://a.co'')"
  by code_simp

end
